theory Spec2Isabelle
  imports Main "HOL-Library.Word"
begin

section \<open>The Product contract: provenance and warranty ledger\<close>

text \<open>
  A shallow embedding of the Solidity contract \<open>Product\<close> (an ERC721 token with role based
  access control). Storage is a record that every mutating function takes and returns; a
  revert is the left injection of a sum, carrying the custom error, so that a reverted call
  has no state to commit. Solidity's fixed width integers are words: \<open>uint256\<close> arithmetic
  is checked (an overflow is \<open>Panic 0x11\<close>), an explicit narrowing conversion such as
  \<open>uint64(block.timestamp)\<close> truncates.
\<close>

subsection \<open>Data model\<close>

type_synonym address = "160 word"
type_synonym uint256 = "256 word"
type_synonym uint64 = "64 word"
type_synonym uint32 = "32 word"
type_synonym bytes32 = "256 word"
type_synonym bytes4 = "32 word"

text \<open>
  Roles are \<open>bytes32\<close> identifiers. The admin role is the zero identifier and the three
  named roles are hashes of their names; they are pairwise different, which is all the
  contract uses, so they are the constructors of a datatype and every other identifier is
  \<open>OtherRole\<close>.
\<close>

datatype role =
    DEFAULT_ADMIN_ROLE
  | MANUFACTURER_ROLE
  | RETAILER_ROLE
  | SERVICE_CENTER_ROLE
  | OtherRole bytes32

record ProductDetails =
  serialNumber :: string
  model :: string
  manufacturer :: address
  manufactureTimestamp :: uint64
  warrantyDuration :: uint64
  warrantyStart :: uint64
  warrantyExpiration :: uint64
  warrantyClaimLimit :: uint32
  warrantyClaimCount :: uint32

record WarrantyClaim =
  tokenId :: uint256
  customer :: address
  issueDescription :: string
  submittedAt :: uint64
  processed :: bool
  approved :: bool
  serviceNotes :: string
  processedAt :: uint64

datatype event =
    ProductRegistered uint256 string string address address uint64 uint64 uint32
  | WarrantyActivated uint256 address uint64 uint64
  | WarrantyClaimSubmitted uint256 uint256 address string uint64
  | WarrantyClaimProcessed uint256 uint256 address bool uint64
  | ServiceRecorded uint256 uint256 address string uint64
  | Transfer address address uint256
  | Approval address address uint256
  | ApprovalForAll address address bool
  | RoleGranted role address address
  | RoleRevoked role address address

datatype error =
    SerialNumberEmpty string
  | SerialNumberExists string
  | ZeroAddress string
  | NotRetailer string
  | WarrantyAlreadyActivated
  | NotOwner
  | WarrantyNotActivated
  | WarrantyExpired
  | ClaimLimitReached
  | IssueDescriptionEmpty
  | ClaimNotExist
  | ClaimAlreadyProcessed
  | ClaimNotApproved
  | ServiceAlreadyRecorded
  | ServiceNotesEmpty
  | ProductNotRegistered
  | ERC721NonexistentToken uint256
  | ERC721InsufficientApproval address uint256
  | ERC721InvalidReceiver address
  | ERC721InvalidSender address
  | ERC721IncorrectOwner address uint256 address
  | ERC721InvalidApprover address
  | ERC721InvalidOperator address
  | AccessControlUnauthorizedAccount address role
  | AccessControlBadConfirmation
  | Panic nat
  | ReceiverRevert string

text \<open>
  Contract storage. Solidity mappings are total: a key never written reads as the zero value
  of the value type. \<open>emitted\<close> is the event log, oldest first.
\<close>

record state =
  roles :: "role \<Rightarrow> address \<Rightarrow> bool"
  owners :: "uint256 \<Rightarrow> address"
  balances :: "address \<Rightarrow> uint256"
  tokenApprovals :: "uint256 \<Rightarrow> address"
  operatorApprovals :: "address \<Rightarrow> address \<Rightarrow> bool"
  tokenIdCounter :: uint256
  claimIdCounter :: uint256
  tokenIdForSerialHash :: "bytes32 \<Rightarrow> uint256"
  productDetails :: "uint256 \<Rightarrow> ProductDetails"
  warrantyClaims :: "uint256 \<Rightarrow> WarrantyClaim"
  emitted :: "event list"

text \<open>
  What the receiver hook of a safe mint or safe transfer finds at an address: no code, a
  contract whose \<open>onERC721Received\<close> returns four bytes, or one whose call reverts with
  some revert data (possibly none). The hook is taken to run to its result without calling
  back into the contract: operations are atomic, one commits before the next begins.
\<close>

datatype hookResult = HookNoCode | HookReturns bytes4 | HookReverts string

text \<open>
  What a call sees of its transaction: the caller, the block's timestamp, and the result of
  the receiver hook at each address. \<open>ReceiverRevert\<close> among the errors is revert data of
  such a hook, passed on as it is.
\<close>

record env =
  msg_sender :: address
  block_timestamp :: uint256
  onERC721Received :: "address \<Rightarrow> hookResult"

definition emptyProduct :: ProductDetails where
  "emptyProduct = \<lparr>serialNumber = [], model = [], manufacturer = 0,
     manufactureTimestamp = 0, warrantyDuration = 0, warrantyStart = 0,
     warrantyExpiration = 0, warrantyClaimLimit = 0, warrantyClaimCount = 0\<rparr>"

definition emptyClaim :: WarrantyClaim where
  "emptyClaim = \<lparr>tokenId = 0, customer = 0, issueDescription = [], submittedAt = 0,
     processed = False, approved = False, serviceNotes = [], processedAt = 0\<rparr>"

subsection \<open>The inherited base contracts\<close>

text \<open>
  Modelled from the spec: the base contracts \<open>ERC721\<close> and \<open>AccessControl\<close> are imported
  from the OpenZeppelin library and their source is not part of the repository. The spec
  treats them as the ownership index and the role directory (\<open>hasRole\<close>, exclusive
  transferable ownership, authorisation established outside the core). The definitions of
  this subsection follow the library's release 5, the one whose hook
  \<open>_update(to, tokenId, auth)\<close> the contract overrides: \<open>ownerOf\<close> reverts with
  \<open>ERC721NonexistentToken\<close> on a token without owner, \<open>_update\<close> checks the authorisation of
  \<open>auth\<close> when it is not zero, adjusts the balances unchecked and writes the owner.

  Solidity names with a leading underscore lose it here: \<open>_ownerOf\<close> is
  \<open>ownerOf_internal\<close>, \<open>_grantRole\<close> and \<open>_revokeRole\<close> are \<open>grantRole_internal\<close> and
  \<open>revokeRole_internal\<close>, \<open>_mint\<close> and \<open>_safeMint\<close> are \<open>mint\<close> and \<open>safeMint\<close>, and the
  inherited \<open>_update\<close> (the contract's \<open>super._update\<close>) is \<open>ERC721_update\<close>.
\<close>

definition hasRole :: "state \<Rightarrow> role \<Rightarrow> address \<Rightarrow> bool" where
  "hasRole s r a = roles s r a"

definition grantRole_internal :: "state \<Rightarrow> env \<Rightarrow> role \<Rightarrow> address \<Rightarrow> state" where
  "grantRole_internal s e r a =
     (if \<not> hasRole s r a
      then s\<lparr>roles := (roles s)(r := (roles s r)(a := True)),
             emitted := emitted s @ [RoleGranted r a (msg_sender e)]\<rparr>
      else s)"

definition revokeRole_internal :: "state \<Rightarrow> env \<Rightarrow> role \<Rightarrow> address \<Rightarrow> state" where
  "revokeRole_internal s e r a =
     (if hasRole s r a
      then s\<lparr>roles := (roles s)(r := (roles s r)(a := False)),
             emitted := emitted s @ [RoleRevoked r a (msg_sender e)]\<rparr>
      else s)"

text \<open>The admin of every role is \<open>DEFAULT_ADMIN_ROLE\<close>: the contract never sets another.\<close>

definition grantRole :: "state \<Rightarrow> env \<Rightarrow> role \<Rightarrow> address \<Rightarrow> error + state" where
  "grantRole s e r a =
     (if \<not> hasRole s DEFAULT_ADMIN_ROLE (msg_sender e)
      then Inl (AccessControlUnauthorizedAccount (msg_sender e) DEFAULT_ADMIN_ROLE)
      else Inr (grantRole_internal s e r a))"

definition revokeRole :: "state \<Rightarrow> env \<Rightarrow> role \<Rightarrow> address \<Rightarrow> error + state" where
  "revokeRole s e r a =
     (if \<not> hasRole s DEFAULT_ADMIN_ROLE (msg_sender e)
      then Inl (AccessControlUnauthorizedAccount (msg_sender e) DEFAULT_ADMIN_ROLE)
      else Inr (revokeRole_internal s e r a))"

definition renounceRole :: "state \<Rightarrow> env \<Rightarrow> role \<Rightarrow> address \<Rightarrow> error + state" where
  "renounceRole s e r callerConfirmation =
     (if callerConfirmation \<noteq> msg_sender e then Inl AccessControlBadConfirmation
      else Inr (revokeRole_internal s e r callerConfirmation))"

definition ownerOf_internal :: "state \<Rightarrow> uint256 \<Rightarrow> address" where
  "ownerOf_internal s tid = owners s tid"

definition ownerOf :: "state \<Rightarrow> uint256 \<Rightarrow> error + address" where
  "ownerOf s tid =
     (if ownerOf_internal s tid = 0 then Inl (ERC721NonexistentToken tid)
      else Inr (ownerOf_internal s tid))"

definition isAuthorized :: "state \<Rightarrow> address \<Rightarrow> address \<Rightarrow> uint256 \<Rightarrow> bool" where
  "isAuthorized s owner spender tid \<longleftrightarrow>
     spender \<noteq> 0 \<and>
     (owner = spender \<or> operatorApprovals s owner spender \<or> tokenApprovals s tid = spender)"

definition ERC721_update ::
  "state \<Rightarrow> address \<Rightarrow> uint256 \<Rightarrow> address \<Rightarrow> error + (state \<times> address)" where
  "ERC721_update s to tid auth =
     (let from = ownerOf_internal s tid in
      if auth \<noteq> 0 \<and> \<not> isAuthorized s from auth tid
      then (if from = 0 then Inl (ERC721NonexistentToken tid)
            else Inl (ERC721InsufficientApproval auth tid))
      else
        let s1 = (if from \<noteq> 0
                  then s\<lparr>tokenApprovals := (tokenApprovals s)(tid := 0),
                         balances := (balances s)(from := balances s from - 1)\<rparr>
                  else s);
            s2 = (if to \<noteq> 0
                  then s1\<lparr>balances := (balances s1)(to := balances s1 to + 1)\<rparr>
                  else s1)
        in Inr (s2\<lparr>owners := (owners s2)(tid := to),
                    emitted := emitted s2 @ [Transfer from to tid]\<rparr>, from))"

definition approve :: "state \<Rightarrow> env \<Rightarrow> address \<Rightarrow> uint256 \<Rightarrow> error + state" where
  "approve s e to tid =
     (case ownerOf s tid of
        Inl err \<Rightarrow> Inl err
      | Inr owner \<Rightarrow>
          if msg_sender e \<noteq> 0 \<and> owner \<noteq> msg_sender e
             \<and> \<not> operatorApprovals s owner (msg_sender e)
          then Inl (ERC721InvalidApprover (msg_sender e))
          else Inr (s\<lparr>tokenApprovals := (tokenApprovals s)(tid := to),
                       emitted := emitted s @ [Approval owner to tid]\<rparr>))"

definition setApprovalForAll :: "state \<Rightarrow> env \<Rightarrow> address \<Rightarrow> bool \<Rightarrow> error + state" where
  "setApprovalForAll s e operator appr =
     (if operator = 0 then Inl (ERC721InvalidOperator operator)
      else Inr (s\<lparr>operatorApprovals :=
                     (operatorApprovals s)(msg_sender e :=
                        (operatorApprovals s (msg_sender e))(operator := appr)),
                   emitted := emitted s @ [ApprovalForAll (msg_sender e) operator appr]\<rparr>))"

subsection \<open>Ownership transfer and automatic warranty activation\<close>

definition activateWarranty :: "state \<Rightarrow> env \<Rightarrow> uint256 \<Rightarrow> address \<Rightarrow> error + state" where
  "activateWarranty s e tid cust =
     (let product = productDetails s tid in
      if warrantyStart product \<noteq> 0 then Inl WarrantyAlreadyActivated
      else if 2 ^ 256 \<le> unat (block_timestamp e) + unat (warrantyDuration product)
      then Inl (Panic 17)
      else
        let start = (ucast (block_timestamp e) :: uint64);
            expiration = (ucast (block_timestamp e + ucast (warrantyDuration product)) :: uint64)
        in Inr (s\<lparr>productDetails := (productDetails s)(tid :=
                       product\<lparr>warrantyStart := start, warrantyExpiration := expiration\<rparr>),
                   emitted := emitted s @ [WarrantyActivated tid cust start expiration]\<rparr>))"

text \<open>
  \<open>Product_update\<close> is the contract's override of \<open>_update\<close>, the transfer hook. Every
  change of owner (transfer, safe transfer and the mint of a registration) goes through it.
  \<open>activateWarranty\<close> above is \<open>_activateWarranty\<close>.
\<close>

definition Product_update ::
  "state \<Rightarrow> env \<Rightarrow> address \<Rightarrow> uint256 \<Rightarrow> address \<Rightarrow> error + (state \<times> address)" where
  "Product_update s e to tid auth =
     (let from = ownerOf_internal s tid in
      case ERC721_update s to tid auth of
        Inl err \<Rightarrow> Inl err
      | Inr (s1, previousOwner) \<Rightarrow>
          if from \<noteq> 0 \<and> hasRole s1 RETAILER_ROLE from \<and> \<not> hasRole s1 RETAILER_ROLE to
             \<and> to \<noteq> 0 \<and> warrantyStart (productDetails s1 tid) = 0
          then (case activateWarranty s1 e tid to of
                  Inl err \<Rightarrow> Inl err
                | Inr s2 \<Rightarrow> Inr (s2, previousOwner))
          else Inr (s1, previousOwner))"

definition transferFrom ::
  "state \<Rightarrow> env \<Rightarrow> address \<Rightarrow> address \<Rightarrow> uint256 \<Rightarrow> error + state" where
  "transferFrom s e from to tid =
     (if to = 0 then Inl (ERC721InvalidReceiver 0)
      else case Product_update s e to tid (msg_sender e) of
             Inl err \<Rightarrow> Inl err
           | Inr (s1, previousOwner) \<Rightarrow>
               if previousOwner \<noteq> from then Inl (ERC721IncorrectOwner from tid previousOwner)
               else Inr s1)"

text \<open>
  The library's receiver check, after a safe mint or a safe transfer: an address without code
  passes; a hook that returns passes when the value is the selector of \<open>onERC721Received\<close>
  (\<open>0x150b7a02\<close>) and gives \<open>ERC721InvalidReceiver\<close> otherwise; a hook that reverts gives
  \<open>ERC721InvalidReceiver\<close> when it has no revert data, and its own revert data otherwise.
  \<open>None\<close> is a passed check.
\<close>

definition onERC721Received_selector :: bytes4 where
  "onERC721Received_selector = 353073666"

definition checkOnERC721Received :: "env \<Rightarrow> address \<Rightarrow> error option" where
  "checkOnERC721Received e to =
     (case onERC721Received e to of
        HookNoCode \<Rightarrow> None
      | HookReturns retval \<Rightarrow>
          if retval \<noteq> onERC721Received_selector then Some (ERC721InvalidReceiver to)
          else None
      | HookReverts reason \<Rightarrow>
          if length reason = 0 then Some (ERC721InvalidReceiver to)
          else Some (ReceiverRevert reason))"

definition safeTransferFrom ::
  "state \<Rightarrow> env \<Rightarrow> address \<Rightarrow> address \<Rightarrow> uint256 \<Rightarrow> error + state" where
  "safeTransferFrom s e from to tid =
     (case transferFrom s e from to tid of
        Inl err \<Rightarrow> Inl err
      | Inr s1 \<Rightarrow>
          (case checkOnERC721Received e to of Some err \<Rightarrow> Inl err | None \<Rightarrow> Inr s1))"

definition mint :: "state \<Rightarrow> env \<Rightarrow> address \<Rightarrow> uint256 \<Rightarrow> error + state" where
  "mint s e to tid =
     (if to = 0 then Inl (ERC721InvalidReceiver 0)
      else case Product_update s e to tid 0 of
             Inl err \<Rightarrow> Inl err
           | Inr (s1, previousOwner) \<Rightarrow>
               if previousOwner \<noteq> 0 then Inl (ERC721InvalidSender 0) else Inr s1)"

definition safeMint :: "state \<Rightarrow> env \<Rightarrow> address \<Rightarrow> uint256 \<Rightarrow> error + state" where
  "safeMint s e to tid =
     (case mint s e to tid of
        Inl err \<Rightarrow> Inl err
      | Inr s1 \<Rightarrow>
          (case checkOnERC721Received e to of Some err \<Rightarrow> Inl err | None \<Rightarrow> Inr s1))"

subsection \<open>Manufacturer, customer and service centre functions\<close>

text \<open>
  \<open>keccak256\<close> is a parameter \<open>H\<close>: the contract only uses it as the key of the serial index.
  The \<open>onlyRole\<close> modifier is the first check of a function that carries it. Parameters
  whose names are record fields are renamed (\<open>model'\<close>, \<open>appr\<close>, \<open>tid\<close> for \<open>tokenId\<close>,
  \<open>cid\<close> for \<open>claimId\<close>).
\<close>

definition registerProduct ::
  "(string \<Rightarrow> bytes32) \<Rightarrow> state \<Rightarrow> env \<Rightarrow> address \<Rightarrow> string \<Rightarrow> string \<Rightarrow> uint64 \<Rightarrow> uint32
     \<Rightarrow> error + (state \<times> uint256)" where
  "registerProduct H s e initialOwner serial model' warrantyDurationInSeconds claimLimit =
     (if \<not> hasRole s MANUFACTURER_ROLE (msg_sender e)
      then Inl (AccessControlUnauthorizedAccount (msg_sender e) MANUFACTURER_ROLE)
      else if length serial = 0 then Inl (SerialNumberEmpty ''serialnumber empty'')
      else
        let serialHash = H serial in
        if tokenIdForSerialHash s serialHash \<noteq> 0
        then Inl (SerialNumberExists ''serialnumber already exists'')
        else if initialOwner = 0 then Inl (ZeroAddress ''address equals to zero'')
        else if \<not> hasRole s RETAILER_ROLE initialOwner then Inl (NotRetailer ''not retailer'')
        else if tokenIdCounter s = - 1 then Inl (Panic 17)
        else
          let newItemId = tokenIdCounter s;
              s1 = s\<lparr>tokenIdCounter := newItemId + 1,
                     productDetails := (productDetails s)(newItemId :=
                       \<lparr>serialNumber = serial, model = model',
                        manufacturer = msg_sender e,
                        manufactureTimestamp = ucast (block_timestamp e),
                        warrantyDuration = warrantyDurationInSeconds,
                        warrantyStart = 0, warrantyExpiration = 0,
                        warrantyClaimLimit = claimLimit, warrantyClaimCount = 0\<rparr>),
                     tokenIdForSerialHash := (tokenIdForSerialHash s)(serialHash := newItemId)\<rparr>
          in case safeMint s1 e initialOwner newItemId of
               Inl err \<Rightarrow> Inl err
             | Inr s2 \<Rightarrow>
                 Inr (s2\<lparr>emitted := emitted s2 @
                          [ProductRegistered newItemId serial model' (msg_sender e) initialOwner
                             (ucast (block_timestamp e)) warrantyDurationInSeconds claimLimit]\<rparr>,
                      newItemId))"

definition submitWarrantyClaim ::
  "state \<Rightarrow> env \<Rightarrow> uint256 \<Rightarrow> string \<Rightarrow> error + (state \<times> uint256)" where
  "submitWarrantyClaim s e tid description =
     (case ownerOf s tid of
        Inl err \<Rightarrow> Inl err
      | Inr owner \<Rightarrow>
          if owner \<noteq> msg_sender e then Inl NotOwner
          else
            let product = productDetails s tid in
            if warrantyStart product = 0 then Inl WarrantyNotActivated
            else if block_timestamp e > ucast (warrantyExpiration product)
            then Inl WarrantyExpired
            else if warrantyClaimCount product \<ge> warrantyClaimLimit product
            then Inl ClaimLimitReached
            else if length description = 0 then Inl IssueDescriptionEmpty
            else if warrantyClaimCount product = - 1 then Inl (Panic 17)
            else if claimIdCounter s = - 1 then Inl (Panic 17)
            else
              let newClaimId = claimIdCounter s in
              Inr (s\<lparr>productDetails := (productDetails s)(tid :=
                          product\<lparr>warrantyClaimCount := warrantyClaimCount product + 1\<rparr>),
                      claimIdCounter := newClaimId + 1,
                      warrantyClaims := (warrantyClaims s)(newClaimId :=
                          \<lparr>tokenId = tid, customer = ownerOf_internal s tid,
                           issueDescription = description,
                           submittedAt = ucast (block_timestamp e),
                           processed = False, approved = False,
                           serviceNotes = [], processedAt = 0\<rparr>),
                      emitted := emitted s @
                        [WarrantyClaimSubmitted newClaimId tid (ownerOf_internal s tid)
                           description (ucast (block_timestamp e))]\<rparr>,
                   newClaimId))"

definition processWarrantyClaim :: "state \<Rightarrow> env \<Rightarrow> uint256 \<Rightarrow> bool \<Rightarrow> error + state" where
  "processWarrantyClaim s e cid appr =
     (if \<not> hasRole s SERVICE_CENTER_ROLE (msg_sender e)
      then Inl (AccessControlUnauthorizedAccount (msg_sender e) SERVICE_CENTER_ROLE)
      else
        let claim = warrantyClaims s cid in
        if tokenId claim = 0 then Inl ClaimNotExist
        else if processed claim then Inl ClaimAlreadyProcessed
        else Inr (s\<lparr>warrantyClaims := (warrantyClaims s)(cid :=
                        claim\<lparr>processed := True, approved := appr,
                              processedAt := ucast (block_timestamp e)\<rparr>),
                     emitted := emitted s @
                       [WarrantyClaimProcessed cid (tokenId claim) (msg_sender e) appr
                          (ucast (block_timestamp e))]\<rparr>))"

definition recordService :: "state \<Rightarrow> env \<Rightarrow> uint256 \<Rightarrow> string \<Rightarrow> error + state" where
  "recordService s e cid notes =
     (if \<not> hasRole s SERVICE_CENTER_ROLE (msg_sender e)
      then Inl (AccessControlUnauthorizedAccount (msg_sender e) SERVICE_CENTER_ROLE)
      else
        let claim = warrantyClaims s cid in
        if tokenId claim = 0 then Inl ClaimNotExist
        else if \<not> (processed claim \<and> approved claim) then Inl ClaimNotApproved
        else if length (serviceNotes claim) \<noteq> 0 then Inl ServiceAlreadyRecorded
        else if length notes = 0 then Inl ServiceNotesEmpty
        else Inr (s\<lparr>warrantyClaims := (warrantyClaims s)(cid := claim\<lparr>serviceNotes := notes\<rparr>),
                     emitted := emitted s @
                       [ServiceRecorded (tokenId claim) cid (msg_sender e) notes
                          (ucast (block_timestamp e))]\<rparr>))"

subsection \<open>View functions\<close>

definition getProductDetails :: "state \<Rightarrow> uint256 \<Rightarrow> error + ProductDetails" where
  "getProductDetails s tid =
     (if manufactureTimestamp (productDetails s tid) = 0 then Inl ProductNotRegistered
      else Inr (productDetails s tid))"

definition getWarrantyClaim :: "state \<Rightarrow> uint256 \<Rightarrow> error + WarrantyClaim" where
  "getWarrantyClaim s cid =
     (if tokenId (warrantyClaims s cid) = 0 then Inl ClaimNotExist
      else Inr (warrantyClaims s cid))"

definition isWarrantyActive :: "state \<Rightarrow> env \<Rightarrow> uint256 \<Rightarrow> error + bool" where
  "isWarrantyActive s e tid =
     (if manufactureTimestamp (productDetails s tid) = 0 then Inl ProductNotRegistered
      else
        let product = productDetails s tid in
        Inr (warrantyStart product > 0
             \<and> block_timestamp e \<le> ucast (warrantyExpiration product)
             \<and> warrantyClaimCount product < warrantyClaimLimit product))"

subsection \<open>Deployment and transactions\<close>

text \<open>The constructor grants all four roles to the deployer; both counters start at 1.\<close>

definition constructor :: "env \<Rightarrow> state" where
  "constructor e =
     (let s0 = \<lparr>roles = (\<lambda>r a. False), owners = (\<lambda>t. 0), balances = (\<lambda>a. 0),
                tokenApprovals = (\<lambda>t. 0), operatorApprovals = (\<lambda>a b. False),
                tokenIdCounter = 1, claimIdCounter = 1,
                tokenIdForSerialHash = (\<lambda>h. 0),
                productDetails = (\<lambda>t. emptyProduct),
                warrantyClaims = (\<lambda>c. emptyClaim), emitted = []\<rparr>;
          s1 = grantRole_internal s0 e DEFAULT_ADMIN_ROLE (msg_sender e);
          s2 = grantRole_internal s1 e MANUFACTURER_ROLE (msg_sender e);
          s3 = grantRole_internal s2 e RETAILER_ROLE (msg_sender e)
      in grantRole_internal s3 e SERVICE_CENTER_ROLE (msg_sender e))"

text \<open>
  The state changing entry points of the deployed contract. A transaction that reverts
  leaves the storage as it was; one that returns commits the new storage.
\<close>

datatype call =
    RegisterProduct address string string uint64 uint32
  | SubmitWarrantyClaim uint256 string
  | ProcessWarrantyClaim uint256 bool
  | RecordService uint256 string
  | TransferFrom address address uint256
  | SafeTransferFrom address address uint256
  | Approve address uint256
  | SetApprovalForAll address bool
  | GrantRole role address
  | RevokeRole role address
  | RenounceRole role address
  | Test bytes32

datatype outcome = Reverted error | Done | NewId uint256 | Echo bytes32

definition commit :: "state \<Rightarrow> error + state \<Rightarrow> state \<times> outcome" where
  "commit s r = (case r of Inl err \<Rightarrow> (s, Reverted err) | Inr s' \<Rightarrow> (s', Done))"

definition commitId :: "state \<Rightarrow> error + (state \<times> uint256) \<Rightarrow> state \<times> outcome" where
  "commitId s r = (case r of Inl err \<Rightarrow> (s, Reverted err) | Inr (s', i) \<Rightarrow> (s', NewId i))"

fun exec :: "(string \<Rightarrow> bytes32) \<Rightarrow> state \<Rightarrow> env \<Rightarrow> call \<Rightarrow> state \<times> outcome" where
  "exec H s e (RegisterProduct initialOwner serial model' duration claimLimit) =
     commitId s (registerProduct H s e initialOwner serial model' duration claimLimit)"
| "exec H s e (SubmitWarrantyClaim tid description) =
     commitId s (submitWarrantyClaim s e tid description)"
| "exec H s e (ProcessWarrantyClaim cid appr) = commit s (processWarrantyClaim s e cid appr)"
| "exec H s e (RecordService cid notes) = commit s (recordService s e cid notes)"
| "exec H s e (TransferFrom from to tid) = commit s (transferFrom s e from to tid)"
| "exec H s e (SafeTransferFrom from to tid) = commit s (safeTransferFrom s e from to tid)"
| "exec H s e (Approve to tid) = commit s (approve s e to tid)"
| "exec H s e (SetApprovalForAll operator appr) = commit s (setApprovalForAll s e operator appr)"
| "exec H s e (GrantRole r a) = commit s (grantRole s e r a)"
| "exec H s e (RevokeRole r a) = commit s (revokeRole s e r a)"
| "exec H s e (RenounceRole r a) = commit s (renounceRole s e r a)"
| "exec H s e (Test keyHash) = (s, Echo keyHash)"

text \<open>A history of transactions, run in order; the outcomes are collected in order.\<close>

fun run :: "(string \<Rightarrow> bytes32) \<Rightarrow> state \<Rightarrow> (env \<times> call) list \<Rightarrow> state \<times> outcome list" where
  "run H s [] = (s, [])"
| "run H s ((e, c) # cs) =
     (let (s1, out) = exec H s e c; (s2, outs) = run H s1 cs in (s2, out # outs))"

text \<open>
  The transactions a chain can deliver: the caller is never the zero address, and the block
  timestamp is a positive number of seconds that fits in 64 bits.
\<close>

definition validEnv :: "env \<Rightarrow> bool" where
  "validEnv e \<longleftrightarrow> msg_sender e \<noteq> 0 \<and> block_timestamp e \<noteq> 0 \<and> block_timestamp e < 2 ^ 64"

text \<open>The states of a deployed contract: the constructor's, and those a transaction leads to.\<close>

inductive reachable :: "(string \<Rightarrow> bytes32) \<Rightarrow> state \<Rightarrow> bool" for H :: "string \<Rightarrow> bytes32" where
  deployed: "reachable H (constructor e)"
| transacted: "reachable H s \<Longrightarrow> validEnv e \<Longrightarrow> reachable H (fst (exec H s e c))"

text \<open>The ids returned by the successful registrations, and by the successful claims, of a history.\<close>

fun registeredIds :: "(env \<times> call) list \<Rightarrow> outcome list \<Rightarrow> uint256 list" where
  "registeredIds ((e, RegisterProduct a sn m d l) # cs) (NewId i # outs) = i # registeredIds cs outs"
| "registeredIds (c # cs) (out # outs) = registeredIds cs outs"
| "registeredIds cs outs = []"

fun claimIds :: "(env \<times> call) list \<Rightarrow> outcome list \<Rightarrow> uint256 list" where
  "claimIds ((e, SubmitWarrantyClaim t d) # cs) (NewId i # outs) = i # claimIds cs outs"
| "claimIds (c # cs) (out # outs) = claimIds cs outs"
| "claimIds cs outs = []"

text \<open>The \<open>WarrantyActivated\<close> events of one record in an event log.\<close>

fun isActivationOf :: "uint256 \<Rightarrow> event \<Rightarrow> bool" where
  "isActivationOf tid (WarrantyActivated i c st ex) = (i = tid)"
| "isActivationOf tid ev = False"

definition activations :: "state \<Rightarrow> uint256 \<Rightarrow> event list" where
  "activations s tid = filter (isActivationOf tid) (emitted s)"

subsection \<open>Invariants of the reachable states\<close>

text \<open>Both counters have left zero behind: zero stays the id of nothing.\<close>

definition inv_ids :: "state \<Rightarrow> bool" where
  "inv_ids s \<longleftrightarrow> tokenIdCounter s \<noteq> 0 \<and> claimIdCounter s \<noteq> 0"

text \<open>
  Ids not yet allocated have no owner, a token without owner has no approved spender, and the
  zero address has no operator.
\<close>

definition inv_own :: "state \<Rightarrow> bool" where
  "inv_own s \<longleftrightarrow>
     (\<forall>t. (t = 0 \<or> tokenIdCounter s \<le> t) \<longrightarrow> owners s t = 0)
     \<and> (\<forall>t. owners s t = 0 \<longrightarrow> tokenApprovals s t = 0)
     \<and> (\<forall>a. \<not> operatorApprovals s 0 a)"

text \<open>A record carries a manufacture time exactly when its id has been allocated.\<close>

definition inv_prod :: "state \<Rightarrow> bool" where
  "inv_prod s \<longleftrightarrow>
     (\<forall>t. manufactureTimestamp (productDetails s t) \<noteq> 0 \<longleftrightarrow> (t \<noteq> 0 \<and> t < tokenIdCounter s))"

text \<open>
  Claims beyond the counter are empty, a processed claim exists, and service notes are only
  found on processed and approved claims.
\<close>

definition inv_claim :: "state \<Rightarrow> bool" where
  "inv_claim s \<longleftrightarrow>
     (\<forall>c. claimIdCounter s \<le> c \<longrightarrow> warrantyClaims s c = emptyClaim)
     \<and> (\<forall>c. processed (warrantyClaims s c) \<longrightarrow> tokenId (warrantyClaims s c) \<noteq> 0)
     \<and> (\<forall>c. serviceNotes (warrantyClaims s c) \<noteq> []
            \<longrightarrow> processed (warrantyClaims s c) \<and> approved (warrantyClaims s c))"

text \<open>
  A record whose warranty fields are set has an owner; the log holds no activation of a record
  whose warranty has not started, and otherwise exactly one, which carries the stored start
  and expiration.
\<close>

definition inv_act :: "state \<Rightarrow> bool" where
  "inv_act s \<longleftrightarrow>
     (\<forall>t. owners s t = 0 \<longrightarrow> warrantyStart (productDetails s t) = 0
                              \<and> warrantyExpiration (productDetails s t) = 0)
     \<and> (\<forall>t. warrantyStart (productDetails s t) = 0 \<longrightarrow> activations s t = [])
     \<and> (\<forall>t. warrantyStart (productDetails s t) \<noteq> 0 \<longrightarrow>
            (\<exists>c. activations s t =
               [WarrantyActivated t c (warrantyStart (productDetails s t))
                  (warrantyExpiration (productDetails s t))]))"

subsection \<open>A worked history\<close>

text \<open>
  The end to end scenario of the specification, used to instantiate the theorems below: the
  deployer (manufacturer, service centre and admin) makes account 2 a retailer and registers a
  product with a one year warranty and a claim limit of 2 to it; the retailer sells it to
  customer 3; the customer submits two claims; the first is approved, the second rejected;
  the service of the first is recorded. \<open>serialKey\<close> stands in for \<open>keccak256\<close>.
\<close>

definition deployer :: address where "deployer = 1"
definition retailerA :: address where "retailerA = 2"
definition customerC :: address where "customerC = 3"

definition txn :: "address \<Rightarrow> uint256 \<Rightarrow> env" where
  "txn a t = \<lparr>msg_sender = a, block_timestamp = t, onERC721Received = (\<lambda>x. HookNoCode)\<rparr>"

definition serialKey :: "string \<Rightarrow> bytes32" where
  "serialKey sn = of_nat (length sn)"

definition scenario :: "(env \<times> call) list" where
  "scenario =
     [(txn deployer 1000, GrantRole RETAILER_ROLE retailerA),
      (txn deployer 1001, RegisterProduct retailerA ''SN-1'' ''Kettle'' 31536000 2),
      (txn retailerA 2000, TransferFrom retailerA customerC 1),
      (txn customerC 3000, SubmitWarrantyClaim 1 ''leaks''),
      (txn customerC 3001, SubmitWarrantyClaim 1 ''no heat''),
      (txn deployer 4000, ProcessWarrantyClaim 1 True),
      (txn deployer 4001, ProcessWarrantyClaim 2 False),
      (txn deployer 5000, RecordService 1 ''replaced seal'')]"

definition stateAfter :: "nat \<Rightarrow> state" where
  "stateAfter n = fst (run serialKey (constructor (txn deployer 999)) (take n scenario))"

text \<open>Further histories: a registration with an empty serial number before a good one;
  the product of the scenario handed back to the retailer after its sale; receivers that
  are contracts whose hook returns four zero bytes; and a product registered with the largest
  warranty duration. In \<open>txn\<close> no address has code.\<close>

definition emptySerialFirst :: "(env \<times> call) list" where
  "emptySerialFirst =
     [(txn deployer 1000, RegisterProduct deployer [] ''Kettle'' 31536000 2),
      (txn deployer 1001, RegisterProduct deployer ''SN-1'' ''Kettle'' 31536000 2)]"

definition returned :: state where
  "returned = fst (run serialKey (stateAfter 3)
     [(txn customerC 2500, TransferFrom customerC retailerA 1)])"

definition rejecting :: "address \<Rightarrow> uint256 \<Rightarrow> env" where
  "rejecting a t =
     \<lparr>msg_sender = a, block_timestamp = t, onERC721Received = (\<lambda>x. HookReturns 0)\<rparr>"

definition lifetime :: state where
  "lifetime = fst (run serialKey (constructor (txn deployer 999))
     [(txn deployer 1000, GrantRole RETAILER_ROLE retailerA),
      (txn deployer 1700000000,
         RegisterProduct retailerA ''SN-1'' ''Kettle'' 18446744073709551615 2),
      (txn retailerA 1700000100, TransferFrom retailerA customerC 1)])"

section \<open>Auxiliary lemmas\<close>

subsection \<open>Words\<close>

lemma unat_ucast_64_256: "unat (ucast (w :: uint64) :: uint256) = unat w"
proof -
  have "unat w < 2 ^ 64" using unsigned_less[of w] by simp
  also have "\<dots> < (2::nat) ^ 256" by simp
  finally show ?thesis by (simp add: unsigned_ucast_eq take_bit_nat_eq_self)
qed

lemma ucast_64_256_less: "(a :: uint256) > ucast (w :: uint64) \<longleftrightarrow> unat w < unat a"
  by (simp add: word_less_nat_alt unat_ucast_64_256)

lemma ucast_64_256_le: "(a :: uint256) \<le> ucast (w :: uint64) \<longleftrightarrow> unat a \<le> unat w"
  by (simp add: word_le_nat_alt unat_ucast_64_256)

lemma unat_succ_below:
  fixes c l :: "'a::len word"
  assumes "unat c < unat l"
  shows "unat (c + 1) = unat c + 1" and "c \<noteq> - 1"
proof -
  have "unat l < 2 ^ LENGTH('a)" by (rule unsigned_less)
  with assms have "Suc (unat c) < 2 ^ LENGTH('a)" by linarith
  then have "unat c + unat (1 :: 'a word) < 2 ^ LENGTH('a)" by simp
  then show "unat (c + 1) = unat c + 1" by (simp add: unat_add_lem[THEN iffD1])
  have "unat l \<le> unat (- 1 :: 'a word)" by (simp add: word_le_nat_alt[symmetric])
  with assms show "c \<noteq> - 1" by auto
qed

lemma unat_succ_not_max:
  fixes c :: "'a::len word"
  assumes "c \<noteq> - 1"
  shows "unat (c + 1) = unat c + 1"
proof -
  have "1 + c \<noteq> 0" using assms by (metis add.commute add_eq_0_iff)
  then show ?thesis using unatSuc[of c] by (simp add: add.commute)
qed


subsection \<open>What a successful call changes\<close>

lemma ERC721_update_effect:
  assumes "ERC721_update s to tid auth = Inr (s', p)"
  shows "p = owners s tid"
    and "owners s' = (owners s)(tid := to)"
    and "roles s' = roles s"
    and "tokenIdCounter s' = tokenIdCounter s"
    and "claimIdCounter s' = claimIdCounter s"
    and "productDetails s' = productDetails s"
    and "warrantyClaims s' = warrantyClaims s"
    and "tokenIdForSerialHash s' = tokenIdForSerialHash s"
    and "operatorApprovals s' = operatorApprovals s"
    and "tokenApprovals s' = (if owners s tid \<noteq> 0 then (tokenApprovals s)(tid := 0) else tokenApprovals s)"
    and "emitted s' = emitted s @ [Transfer (owners s tid) to tid]"
    and "auth \<noteq> 0 \<longrightarrow> isAuthorized s (owners s tid) auth tid"
  using assms
  by (auto simp: ERC721_update_def ownerOf_internal_def Let_def split: if_splits)

lemma activateWarranty_effect:
  assumes "activateWarranty s e tid c = Inr s'"
  shows "warrantyStart (productDetails s tid) = 0"
    and "owners s' = owners s"
    and "roles s' = roles s"
    and "tokenIdCounter s' = tokenIdCounter s"
    and "claimIdCounter s' = claimIdCounter s"
    and "productDetails s' = (productDetails s)(tid := (productDetails s tid)
           \<lparr>warrantyStart := ucast (block_timestamp e),
            warrantyExpiration := ucast (block_timestamp e + ucast (warrantyDuration (productDetails s tid)))\<rparr>)"
    and "warrantyClaims s' = warrantyClaims s"
    and "tokenIdForSerialHash s' = tokenIdForSerialHash s"
    and "operatorApprovals s' = operatorApprovals s"
    and "tokenApprovals s' = tokenApprovals s"
    and "emitted s' = emitted s @ [WarrantyActivated tid c (ucast (block_timestamp e))
           (ucast (block_timestamp e + ucast (warrantyDuration (productDetails s tid))))]"
  using assms
  by (auto simp: activateWarranty_def Let_def split: if_splits)

lemma Product_update_effect:
  assumes "Product_update s e to tid auth = Inr (s', p)"
  shows "p = owners s tid"
    and "owners s' = (owners s)(tid := to)"
    and "roles s' = roles s"
    and "tokenIdCounter s' = tokenIdCounter s"
    and "claimIdCounter s' = claimIdCounter s"
    and "productDetails s' =
          (if owners s tid \<noteq> 0 \<and> hasRole s RETAILER_ROLE (owners s tid)
              \<and> \<not> hasRole s RETAILER_ROLE to \<and> to \<noteq> 0
              \<and> warrantyStart (productDetails s tid) = 0
           then (productDetails s)(tid := (productDetails s tid)
                  \<lparr>warrantyStart := ucast (block_timestamp e),
                   warrantyExpiration :=
                     ucast (block_timestamp e + ucast (warrantyDuration (productDetails s tid)))\<rparr>)
           else productDetails s)"
    and "warrantyClaims s' = warrantyClaims s"
    and "tokenIdForSerialHash s' = tokenIdForSerialHash s"
    and "operatorApprovals s' = operatorApprovals s"
    and "tokenApprovals s' = (if owners s tid \<noteq> 0 then (tokenApprovals s)(tid := 0) else tokenApprovals s)"
    and "emitted s' = emitted s @ Transfer (owners s tid) to tid #
          (if owners s tid \<noteq> 0 \<and> hasRole s RETAILER_ROLE (owners s tid)
              \<and> \<not> hasRole s RETAILER_ROLE to \<and> to \<noteq> 0
              \<and> warrantyStart (productDetails s tid) = 0
           then [WarrantyActivated tid to (ucast (block_timestamp e))
                  (ucast (block_timestamp e + ucast (warrantyDuration (productDetails s tid))))]
           else [])"
    and "auth \<noteq> 0 \<longrightarrow> isAuthorized s (owners s tid) auth tid"
proof -
  obtain s1 where u: "ERC721_update s to tid auth = Inr (s1, p)"
    and rest: "(if owners s tid \<noteq> 0 \<and> hasRole s1 RETAILER_ROLE (owners s tid)
                   \<and> \<not> hasRole s1 RETAILER_ROLE to \<and> to \<noteq> 0
                   \<and> warrantyStart (productDetails s1 tid) = 0
                then activateWarranty s1 e tid to = Inr s' else s' = s1)"
    using assms
    by (auto simp: Product_update_def ownerOf_internal_def Let_def
        split: sum.splits prod.splits if_splits)
  note f = ERC721_update_effect[OF u]
  have h: "hasRole s1 = hasRole s" using f(3) by (auto simp: hasRole_def fun_eq_iff)
  show "p = owners s tid" by (rule f(1))
  show "auth \<noteq> 0 \<longrightarrow> isAuthorized s (owners s tid) auth tid" by (rule f(12))
  show "owners s' = (owners s)(tid := to)"
    using rest f by (auto split: if_splits dest: activateWarranty_effect)
  show "roles s' = roles s"
    using rest f by (auto split: if_splits dest: activateWarranty_effect)
  show "tokenIdCounter s' = tokenIdCounter s"
    using rest f by (auto split: if_splits dest: activateWarranty_effect)
  show "claimIdCounter s' = claimIdCounter s"
    using rest f by (auto split: if_splits dest: activateWarranty_effect)
  show "warrantyClaims s' = warrantyClaims s"
    using rest f by (auto split: if_splits dest: activateWarranty_effect)
  show "tokenIdForSerialHash s' = tokenIdForSerialHash s"
    using rest f by (auto split: if_splits dest: activateWarranty_effect)
  show "operatorApprovals s' = operatorApprovals s"
    using rest f by (auto split: if_splits dest: activateWarranty_effect)
  show "tokenApprovals s' = (if owners s tid \<noteq> 0 then (tokenApprovals s)(tid := 0) else tokenApprovals s)"
    using rest f(10) by (auto split: if_splits dest: activateWarranty_effect(10))
  show "productDetails s' =
          (if owners s tid \<noteq> 0 \<and> hasRole s RETAILER_ROLE (owners s tid)
              \<and> \<not> hasRole s RETAILER_ROLE to \<and> to \<noteq> 0
              \<and> warrantyStart (productDetails s tid) = 0
           then (productDetails s)(tid := (productDetails s tid)
                  \<lparr>warrantyStart := ucast (block_timestamp e),
                   warrantyExpiration :=
                     ucast (block_timestamp e + ucast (warrantyDuration (productDetails s tid)))\<rparr>)
           else productDetails s)"
    using rest f(6) h by (auto split: if_splits dest: activateWarranty_effect(6))
  show "emitted s' = emitted s @ Transfer (owners s tid) to tid #
          (if owners s tid \<noteq> 0 \<and> hasRole s RETAILER_ROLE (owners s tid)
              \<and> \<not> hasRole s RETAILER_ROLE to \<and> to \<noteq> 0
              \<and> warrantyStart (productDetails s tid) = 0
           then [WarrantyActivated tid to (ucast (block_timestamp e))
                  (ucast (block_timestamp e + ucast (warrantyDuration (productDetails s tid))))]
           else [])"
    using rest f(6,11) h by (auto split: if_splits dest: activateWarranty_effect(11))
qed


lemma transferFrom_effect:
  assumes "transferFrom s e from to tid = Inr s'"
  shows "to \<noteq> 0" and "from = owners s tid"
    and "Product_update s e to tid (msg_sender e) = Inr (s', from)"
  using assms
  by (auto simp: transferFrom_def split: if_splits sum.splits prod.splits
      dest: Product_update_effect(1))

lemma safeTransferFrom_effect:
  assumes "safeTransferFrom s e from to tid = Inr s'"
  shows "transferFrom s e from to tid = Inr s'" and "checkOnERC721Received e to = None"
  using assms
  by (auto simp: safeTransferFrom_def split: if_splits sum.splits option.splits)

lemma safeMint_effect:
  assumes "safeMint s e to tid = Inr s'"
  shows "to \<noteq> 0" and "owners s tid = 0" and "checkOnERC721Received e to = None"
    and "Product_update s e to tid 0 = Inr (s', 0)"
  using assms
  by (auto simp: safeMint_def mint_def split: if_splits sum.splits prod.splits option.splits
      dest: Product_update_effect(1))

lemma word_succ_eq_0: "(k :: 'a::len word) + 1 = 0 \<longleftrightarrow> k = - 1"
  by (metis add.commute add_eq_0_iff)

lemma word_le_succ:
  fixes k t :: "'a::len word"
  assumes "k \<noteq> - 1"
  shows "k + 1 \<le> t \<longleftrightarrow> k \<le> t \<and> t \<noteq> k"
  using assms unat_succ_not_max[OF assms]
  by (auto simp: word_le_nat_alt word_unat_eq_iff)

lemma word_less_succ:
  fixes k t :: "'a::len word"
  assumes "k \<noteq> - 1"
  shows "t < k + 1 \<longleftrightarrow> t < k \<or> t = k"
  using assms unat_succ_not_max[OF assms]
  by (auto simp: word_less_nat_alt word_unat_eq_iff)

lemma registerProduct_effect:
  assumes "registerProduct H s e a sn m d l = Inr (s', i)"
  shows "i = tokenIdCounter s"
    and "tokenIdCounter s \<noteq> - 1"
    and "tokenIdCounter s' = tokenIdCounter s + 1"
    and "owners s (tokenIdCounter s) = 0"
    and "a \<noteq> 0"
    and "owners s' = (owners s)(tokenIdCounter s := a)"
    and "roles s' = roles s"
    and "claimIdCounter s' = claimIdCounter s"
    and "productDetails s' = (productDetails s)(tokenIdCounter s :=
           \<lparr>serialNumber = sn, model = m, manufacturer = msg_sender e,
            manufactureTimestamp = ucast (block_timestamp e), warrantyDuration = d,
            warrantyStart = 0, warrantyExpiration = 0,
            warrantyClaimLimit = l, warrantyClaimCount = 0\<rparr>)"
    and "warrantyClaims s' = warrantyClaims s"
    and "tokenIdForSerialHash s' = (tokenIdForSerialHash s)(H sn := tokenIdCounter s)"
    and "operatorApprovals s' = operatorApprovals s"
    and "tokenApprovals s' = tokenApprovals s"
    and "emitted s' = emitted s @ [Transfer 0 a (tokenIdCounter s),
           ProductRegistered (tokenIdCounter s) sn m (msg_sender e) a
             (ucast (block_timestamp e)) d l]"
    and "hasRole s MANUFACTURER_ROLE (msg_sender e)"
    and "sn \<noteq> []"
    and "tokenIdForSerialHash s (H sn) = 0"
    and "hasRole s RETAILER_ROLE a"
    and "checkOnERC721Received e a = None"
proof -
  define k where "k = tokenIdCounter s"
  define s1 where "s1 = s\<lparr>tokenIdCounter := k + 1,
       productDetails := (productDetails s)(k :=
         \<lparr>serialNumber = sn, model = m, manufacturer = msg_sender e,
          manufactureTimestamp = ucast (block_timestamp e), warrantyDuration = d,
          warrantyStart = 0, warrantyExpiration = 0,
          warrantyClaimLimit = l, warrantyClaimCount = 0\<rparr>),
       tokenIdForSerialHash := (tokenIdForSerialHash s)(H sn := k)\<rparr>"
  obtain s2 where pre: "hasRole s MANUFACTURER_ROLE (msg_sender e)" "sn \<noteq> []"
      "tokenIdForSerialHash s (H sn) = 0" "a \<noteq> 0" "hasRole s RETAILER_ROLE a" "k \<noteq> - 1"
    and m: "safeMint s1 e a k = Inr s2"
    and fin: "i = k" "s' = s2\<lparr>emitted := emitted s2 @
                [ProductRegistered k sn m (msg_sender e) a (ucast (block_timestamp e)) d l]\<rparr>"
    using assms unfolding registerProduct_def Let_def k_def s1_def
    by (auto split: if_splits sum.splits)
  note sm = safeMint_effect[OF m]
  note u = Product_update_effect[OF sm(4)]
  have o1: "owners s1 = owners s" "roles s1 = roles s" "claimIdCounter s1 = claimIdCounter s"
    "warrantyClaims s1 = warrantyClaims s" "operatorApprovals s1 = operatorApprovals s"
    "tokenApprovals s1 = tokenApprovals s" "emitted s1 = emitted s"
    "tokenIdCounter s1 = k + 1"
    by (simp_all add: s1_def)
  show "i = tokenIdCounter s" using fin by (simp add: k_def)
  show "tokenIdCounter s \<noteq> - 1" using pre by (simp add: k_def)
  show "owners s (tokenIdCounter s) = 0" using sm(2) o1 by (simp add: k_def)
  show "a \<noteq> 0" by (rule pre)
  show "hasRole s MANUFACTURER_ROLE (msg_sender e)" "sn \<noteq> []"
    "tokenIdForSerialHash s (H sn) = 0" "hasRole s RETAILER_ROLE a"
    by (rule pre)+
  show "checkOnERC721Received e a = None" by (rule sm)
  show "tokenIdCounter s' = tokenIdCounter s + 1" using fin u(4) o1 by (simp add: k_def)
  show "owners s' = (owners s)(tokenIdCounter s := a)" using fin u(2) o1 by (simp add: k_def)
  show "roles s' = roles s" using fin u(3) o1 by simp
  show "claimIdCounter s' = claimIdCounter s" using fin u(5) o1 by simp
  show "warrantyClaims s' = warrantyClaims s" using fin u(7) o1 by simp
  show "operatorApprovals s' = operatorApprovals s" using fin u(9) o1 by simp
  show "tokenApprovals s' = tokenApprovals s" using fin u(10) o1 sm(2) by simp
  show "tokenIdForSerialHash s' = (tokenIdForSerialHash s)(H sn := tokenIdCounter s)"
    using fin u(8) by (simp add: s1_def k_def)
  show "productDetails s' = (productDetails s)(tokenIdCounter s :=
           \<lparr>serialNumber = sn, model = m, manufacturer = msg_sender e,
            manufactureTimestamp = ucast (block_timestamp e), warrantyDuration = d,
            warrantyStart = 0, warrantyExpiration = 0,
            warrantyClaimLimit = l, warrantyClaimCount = 0\<rparr>)"
    using fin u(6) sm(2) by (simp add: s1_def k_def)
  show "emitted s' = emitted s @ [Transfer 0 a (tokenIdCounter s),
           ProductRegistered (tokenIdCounter s) sn m (msg_sender e) a
             (ucast (block_timestamp e)) d l]"
    using fin u(11) sm(2) o1 by (simp add: k_def)
qed

lemma transfer_effect:
  assumes "transferFrom s e from to tid = Inr s'"
  shows "to \<noteq> 0" and "from = owners s tid"
    and "msg_sender e \<noteq> 0 \<longrightarrow> isAuthorized s (owners s tid) (msg_sender e) tid"
    and "owners s' = (owners s)(tid := to)"
    and "roles s' = roles s"
    and "tokenIdCounter s' = tokenIdCounter s"
    and "claimIdCounter s' = claimIdCounter s"
    and "productDetails s' =
          (if owners s tid \<noteq> 0 \<and> hasRole s RETAILER_ROLE (owners s tid)
              \<and> \<not> hasRole s RETAILER_ROLE to
              \<and> warrantyStart (productDetails s tid) = 0
           then (productDetails s)(tid := (productDetails s tid)
                  \<lparr>warrantyStart := ucast (block_timestamp e),
                   warrantyExpiration :=
                     ucast (block_timestamp e + ucast (warrantyDuration (productDetails s tid)))\<rparr>)
           else productDetails s)"
    and "warrantyClaims s' = warrantyClaims s"
    and "operatorApprovals s' = operatorApprovals s"
    and "tokenApprovals s' = (if owners s tid \<noteq> 0 then (tokenApprovals s)(tid := 0) else tokenApprovals s)"
    and "emitted s' = emitted s @ Transfer (owners s tid) to tid #
          (if owners s tid \<noteq> 0 \<and> hasRole s RETAILER_ROLE (owners s tid)
              \<and> \<not> hasRole s RETAILER_ROLE to
              \<and> warrantyStart (productDetails s tid) = 0
           then [WarrantyActivated tid to (ucast (block_timestamp e))
                  (ucast (block_timestamp e + ucast (warrantyDuration (productDetails s tid))))]
           else [])"
proof -
  note t = transferFrom_effect[OF assms]
  note u = Product_update_effect[OF t(3)]
  show "to \<noteq> 0" "from = owners s tid" by (rule t)+
  show "msg_sender e \<noteq> 0 \<longrightarrow> isAuthorized s (owners s tid) (msg_sender e) tid" by (rule u)
  show "owners s' = (owners s)(tid := to)" "roles s' = roles s"
    "tokenIdCounter s' = tokenIdCounter s" "claimIdCounter s' = claimIdCounter s"
    "warrantyClaims s' = warrantyClaims s" "operatorApprovals s' = operatorApprovals s"
    "tokenApprovals s' = (if owners s tid \<noteq> 0 then (tokenApprovals s)(tid := 0) else tokenApprovals s)"
    by (rule u)+
  show "productDetails s' =
          (if owners s tid \<noteq> 0 \<and> hasRole s RETAILER_ROLE (owners s tid)
              \<and> \<not> hasRole s RETAILER_ROLE to
              \<and> warrantyStart (productDetails s tid) = 0
           then (productDetails s)(tid := (productDetails s tid)
                  \<lparr>warrantyStart := ucast (block_timestamp e),
                   warrantyExpiration :=
                     ucast (block_timestamp e + ucast (warrantyDuration (productDetails s tid)))\<rparr>)
           else productDetails s)"
    using u(6) t(1) by simp
  show "emitted s' = emitted s @ Transfer (owners s tid) to tid #
          (if owners s tid \<noteq> 0 \<and> hasRole s RETAILER_ROLE (owners s tid)
              \<and> \<not> hasRole s RETAILER_ROLE to
              \<and> warrantyStart (productDetails s tid) = 0
           then [WarrantyActivated tid to (ucast (block_timestamp e))
                  (ucast (block_timestamp e + ucast (warrantyDuration (productDetails s tid))))]
           else [])"
    using u(11) t(1) by simp
qed

lemma submitWarrantyClaim_effect:
  assumes "submitWarrantyClaim s e tid d = Inr (s', i)"
  shows "i = claimIdCounter s"
    and "claimIdCounter s \<noteq> - 1"
    and "claimIdCounter s' = claimIdCounter s + 1"
    and "owners s tid \<noteq> 0"
    and "owners s' = owners s"
    and "roles s' = roles s"
    and "tokenIdCounter s' = tokenIdCounter s"
    and "productDetails s' = (productDetails s)(tid := (productDetails s tid)
           \<lparr>warrantyClaimCount := warrantyClaimCount (productDetails s tid) + 1\<rparr>)"
    and "warrantyClaims s' = (warrantyClaims s)(claimIdCounter s :=
           \<lparr>tokenId = tid, customer = owners s tid, issueDescription = d,
            submittedAt = ucast (block_timestamp e), processed = False, approved = False,
            serviceNotes = [], processedAt = 0\<rparr>)"
    and "operatorApprovals s' = operatorApprovals s"
    and "tokenApprovals s' = tokenApprovals s"
    and "emitted s' = emitted s @ [WarrantyClaimSubmitted (claimIdCounter s) tid (owners s tid)
           d (ucast (block_timestamp e))]"
  using assms
  by (auto simp: submitWarrantyClaim_def ownerOf_def ownerOf_internal_def Let_def
      split: if_splits sum.splits)

lemma processWarrantyClaim_effect:
  assumes "processWarrantyClaim s e cid ap = Inr s'"
  shows "hasRole s SERVICE_CENTER_ROLE (msg_sender e)"
    and "tokenId (warrantyClaims s cid) \<noteq> 0"
    and "\<not> processed (warrantyClaims s cid)"
    and "s' = s\<lparr>warrantyClaims := (warrantyClaims s)(cid := (warrantyClaims s cid)
                  \<lparr>processed := True, approved := ap,
                   processedAt := ucast (block_timestamp e)\<rparr>),
               emitted := emitted s @ [WarrantyClaimProcessed cid (tokenId (warrantyClaims s cid))
                  (msg_sender e) ap (ucast (block_timestamp e))]\<rparr>"
  using assms by (auto simp: processWarrantyClaim_def Let_def split: if_splits)

lemma recordService_effect:
  assumes "recordService s e cid notes = Inr s'"
  shows "hasRole s SERVICE_CENTER_ROLE (msg_sender e)"
    and "tokenId (warrantyClaims s cid) \<noteq> 0"
    and "processed (warrantyClaims s cid)" and "approved (warrantyClaims s cid)"
    and "serviceNotes (warrantyClaims s cid) = []" and "notes \<noteq> []"
    and "s' = s\<lparr>warrantyClaims := (warrantyClaims s)(cid := (warrantyClaims s cid)
                  \<lparr>serviceNotes := notes\<rparr>),
               emitted := emitted s @ [ServiceRecorded (tokenId (warrantyClaims s cid)) cid
                  (msg_sender e) notes (ucast (block_timestamp e))]\<rparr>"
  using assms by (auto simp: recordService_def Let_def split: if_splits)

lemma approve_effect:
  assumes "approve s e to tid = Inr s'"
  shows "owners s tid \<noteq> 0"
    and "s' = s\<lparr>tokenApprovals := (tokenApprovals s)(tid := to),
               emitted := emitted s @ [Approval (owners s tid) to tid]\<rparr>"
  using assms
  by (auto simp: approve_def ownerOf_def ownerOf_internal_def split: if_splits sum.splits)

lemma setApprovalForAll_effect:
  assumes "setApprovalForAll s e operator ap = Inr s'"
  shows "s' = s\<lparr>operatorApprovals := (operatorApprovals s)(msg_sender e :=
                  (operatorApprovals s (msg_sender e))(operator := ap)),
               emitted := emitted s @ [ApprovalForAll (msg_sender e) operator ap]\<rparr>"
  using assms by (auto simp: setApprovalForAll_def split: if_splits)

lemma roles_internal_effect:
  assumes "s' = grantRole_internal s e r a \<or> s' = revokeRole_internal s e r a"
  shows "owners s' = owners s" and "tokenIdCounter s' = tokenIdCounter s"
    and "claimIdCounter s' = claimIdCounter s" and "productDetails s' = productDetails s"
    and "warrantyClaims s' = warrantyClaims s" and "operatorApprovals s' = operatorApprovals s"
    and "tokenApprovals s' = tokenApprovals s"
    and "activations s' t = activations s t"
  using assms
  by (auto simp: grantRole_internal_def revokeRole_internal_def activations_def)

lemma exec_cases [consumes 1, case_names Unchanged Register Submit Process Record Transfer
    Approved SetApproval Roles]:
  assumes "exec H s e c = (s', out)"
  obtains
    (Unchanged) "s' = s" "(\<exists>err. out = Reverted err) \<or> (\<exists>k. out = Echo k)"
  | (Register) a sn m d l i where "c = RegisterProduct a sn m d l" "out = NewId i"
      "registerProduct H s e a sn m d l = Inr (s', i)"
  | (Submit) tid d i where "c = SubmitWarrantyClaim tid d" "out = NewId i"
      "submitWarrantyClaim s e tid d = Inr (s', i)"
  | (Process) cid ap where "c = ProcessWarrantyClaim cid ap" "out = Done"
      "processWarrantyClaim s e cid ap = Inr s'"
  | (Record) cid nts where "c = RecordService cid nts" "out = Done"
      "recordService s e cid nts = Inr s'"
  | (Transfer) "from" to tid where
      "c = TransferFrom from to tid \<or> c = SafeTransferFrom from to tid" "out = Done"
      "transferFrom s e from to tid = Inr s'"
  | (Approved) to tid where "c = Approve to tid" "out = Done" "approve s e to tid = Inr s'"
  | (SetApproval) operator ap where "c = SetApprovalForAll operator ap" "out = Done"
      "setApprovalForAll s e operator ap = Inr s'"
  | (Roles) r a where "c = GrantRole r a \<or> c = RevokeRole r a \<or> c = RenounceRole r a"
      "out = Done" "s' = grantRole_internal s e r a \<or> s' = revokeRole_internal s e r a"
proof (cases c)
  case (RegisterProduct a sn m d l)
  then show ?thesis using assms Unchanged Register
    by (auto simp: commitId_def split: sum.splits)
next
  case (SubmitWarrantyClaim tid d)
  then show ?thesis using assms Unchanged Submit
    by (auto simp: commitId_def split: sum.splits)
next
  case (ProcessWarrantyClaim cid ap)
  then show ?thesis using assms Unchanged Process
    by (auto simp: commit_def split: sum.splits)
next
  case (RecordService cid nts)
  then show ?thesis using assms Unchanged Record
    by (auto simp: commit_def split: sum.splits)
next
  case (TransferFrom f t i)
  then show ?thesis using assms Unchanged Transfer
    by (auto simp: commit_def split: sum.splits)
next
  case (SafeTransferFrom f t i)
  then show ?thesis using assms Unchanged Transfer[of f t i]
    by (auto simp: commit_def split: sum.splits dest: safeTransferFrom_effect(1))
next
  case (Approve to tid)
  then show ?thesis using assms Unchanged Approved
    by (auto simp: commit_def split: sum.splits)
next
  case (SetApprovalForAll operator ap)
  then show ?thesis using assms Unchanged SetApproval
    by (auto simp: commit_def split: sum.splits)
next
  case (GrantRole r a)
  then show ?thesis using assms Unchanged Roles[of r a]
    by (auto simp: commit_def grantRole_def split: sum.splits if_splits)
next
  case (RevokeRole r a)
  then show ?thesis using assms Unchanged Roles[of r a]
    by (auto simp: commit_def revokeRole_def split: sum.splits if_splits)
next
  case (RenounceRole r a)
  then show ?thesis using assms Unchanged Roles[of r a]
    by (auto simp: commit_def renounceRole_def split: sum.splits if_splits)
next
  case (Test k)
  then show ?thesis using assms Unchanged by auto
qed

subsection \<open>The invariants hold in every reachable state\<close>

lemma inv_ids_step:
  assumes "inv_ids s" and ex: "exec H s e c = (s', out)"
  shows "inv_ids s'"
  using ex
proof (cases rule: exec_cases)
  case Unchanged
  then show ?thesis using assms by simp
next
  case (Register a sn m d l i)
  note eff = registerProduct_effect[OF Register(3)]
  show ?thesis using assms(1) eff(2,3,8) by (simp add: inv_ids_def word_succ_eq_0)
next
  case (Submit tid d i)
  note eff = submitWarrantyClaim_effect[OF Submit(3)]
  show ?thesis using assms(1) eff(2,3,7) by (simp add: inv_ids_def word_succ_eq_0)
next
  case (Process cid ap)
  show ?thesis using assms(1) processWarrantyClaim_effect(4)[OF Process(3)]
    by (simp add: inv_ids_def)
next
  case (Record cid nts)
  show ?thesis using assms(1) recordService_effect(7)[OF Record(3)]
    by (simp add: inv_ids_def)
next
  case (Transfer "from" to tid)
  note eff = transfer_effect[OF Transfer(3)]
  show ?thesis using assms(1) eff(6,7) by (simp add: inv_ids_def)
next
  case (Approved to tid)
  show ?thesis using assms(1) approve_effect(2)[OF Approved(3)] by (simp add: inv_ids_def)
next
  case (SetApproval operator ap)
  show ?thesis using assms(1) setApprovalForAll_effect[OF SetApproval(3)]
    by (simp add: inv_ids_def)
next
  case (Roles r a)
  note eff = roles_internal_effect[OF Roles(3)]
  show ?thesis using assms(1) eff(2,3) by (simp add: inv_ids_def)
qed


lemma validEnv_timestamp:
  assumes "validEnv e"
  shows "(ucast (block_timestamp e) :: uint64) \<noteq> 0"
    and "unat (ucast (block_timestamp e) :: uint64) = unat (block_timestamp e)"
proof -
  have lt: "unat (block_timestamp e) < 2 ^ 64" and nz: "unat (block_timestamp e) \<noteq> 0"
    using assms by (simp_all add: validEnv_def word_less_nat_alt unat_eq_0)
  show u: "unat (ucast (block_timestamp e) :: uint64) = unat (block_timestamp e)"
    using lt by (simp add: unsigned_ucast_eq take_bit_nat_eq_self)
  show "(ucast (block_timestamp e) :: uint64) \<noteq> 0"
    using u nz by (metis unat_eq_0)
qed

lemma transfer_owned:
  assumes "inv_own s" and "validEnv e" and "transferFrom s e from to tid = Inr s'"
  shows "owners s tid \<noteq> 0"
proof
  assume z: "owners s tid = 0"
  have "isAuthorized s (owners s tid) (msg_sender e) tid"
    using transfer_effect(3)[OF assms(3)] assms(2) by (simp add: validEnv_def)
  then show False
    using z assms(1,2) by (auto simp: isAuthorized_def inv_own_def validEnv_def)
qed

lemma inv_own_step:
  assumes "inv_own s" and "inv_ids s" and "validEnv e" and ex: "exec H s e c = (s', out)"
  shows "inv_own s'"
  using ex
proof (cases rule: exec_cases)
  case Unchanged
  then show ?thesis using assms by simp
next
  case (Register a sn m d l i)
  note eff = registerProduct_effect[OF Register(3)]
  show ?thesis
    using assms(1,2) eff(2,5) unfolding inv_own_def inv_ids_def eff(3,6,12,13)
    by (auto simp: word_le_succ)
next
  case (Submit tid d i)
  note eff = submitWarrantyClaim_effect[OF Submit(3)]
  show ?thesis using assms(1) unfolding inv_own_def eff(5,7,10,11) by simp
next
  case (Process cid ap)
  show ?thesis using assms(1) processWarrantyClaim_effect(4)[OF Process(3)]
    by (simp add: inv_own_def)
next
  case (Record cid nts)
  show ?thesis using assms(1) recordService_effect(7)[OF Record(3)]
    by (simp add: inv_own_def)
next
  case (Transfer "from" to tid)
  note eff = transfer_effect[OF Transfer(3)]
  note own = transfer_owned[OF assms(1,3) Transfer(3)]
  show ?thesis
    using assms(1) own eff(1) unfolding inv_own_def eff(4,6,10,11)
    by auto
next
  case (Approved to tid)
  note eff = approve_effect[OF Approved(3)]
  show ?thesis using assms(1) eff(1) unfolding eff(2) by (auto simp: inv_own_def)
next
  case (SetApproval operator ap)
  show ?thesis using assms(1,3) setApprovalForAll_effect[OF SetApproval(3)]
    by (auto simp: inv_own_def validEnv_def)
next
  case (Roles r a)
  note eff = roles_internal_effect[OF Roles(3)]
  show ?thesis using assms(1) unfolding inv_own_def eff(1,2,6,7) by simp
qed

lemma inv_prod_step:
  assumes "inv_prod s" and "inv_ids s" and "validEnv e" and ex: "exec H s e c = (s', out)"
  shows "inv_prod s'"
  using ex
proof (cases rule: exec_cases)
  case Unchanged
  then show ?thesis using assms by simp
next
  case (Register a sn m d l i)
  note eff = registerProduct_effect[OF Register(3)]
  show ?thesis
    using assms(1,2) eff(2) validEnv_timestamp(1)[OF assms(3)]
    unfolding inv_prod_def inv_ids_def eff(3,9)
    by (auto simp: word_less_succ)
next
  case (Submit tid d i)
  note eff = submitWarrantyClaim_effect[OF Submit(3)]
  show ?thesis using assms(1) unfolding inv_prod_def eff(7,8) by simp
next
  case (Process cid ap)
  show ?thesis using assms(1) processWarrantyClaim_effect(4)[OF Process(3)]
    by (simp add: inv_prod_def)
next
  case (Record cid nts)
  show ?thesis using assms(1) recordService_effect(7)[OF Record(3)]
    by (simp add: inv_prod_def)
next
  case (Transfer "from" to tid)
  note eff = transfer_effect[OF Transfer(3)]
  show ?thesis
    using assms(1) unfolding inv_prod_def eff(6,8) by simp
next
  case (Approved to tid)
  show ?thesis using assms(1) approve_effect(2)[OF Approved(3)] by (simp add: inv_prod_def)
next
  case (SetApproval operator ap)
  show ?thesis using assms(1) setApprovalForAll_effect[OF SetApproval(3)]
    by (simp add: inv_prod_def)
next
  case (Roles r a)
  note eff = roles_internal_effect[OF Roles(3)]
  show ?thesis using assms(1) unfolding inv_prod_def eff(2,4) by simp
qed

lemma inv_claim_step:
  assumes "inv_claim s" and ex: "exec H s e c = (s', out)"
  shows "inv_claim s'"
  using ex
proof (cases rule: exec_cases)
  case Unchanged
  then show ?thesis using assms by simp
next
  case (Register a sn m d l i)
  note eff = registerProduct_effect[OF Register(3)]
  show ?thesis using assms(1) unfolding inv_claim_def eff(8,10) by simp
next
  case (Submit tid d i)
  note eff = submitWarrantyClaim_effect[OF Submit(3)]
  show ?thesis
    using assms(1) eff(2) unfolding inv_claim_def eff(3,9)
    by (auto simp: word_le_succ)
next
  case (Process cid ap)
  note eff = processWarrantyClaim_effect[OF Process(3)]
  have "\<not> claimIdCounter s \<le> cid"
    using assms(1) eff(2) by (auto simp: inv_claim_def emptyClaim_def)
  then show ?thesis
    using assms(1) eff(2,3) unfolding eff(4) by (auto simp: inv_claim_def)
next
  case (Record cid nts)
  note eff = recordService_effect[OF Record(3)]
  have "\<not> claimIdCounter s \<le> cid"
    using assms(1) eff(2) by (auto simp: inv_claim_def emptyClaim_def)
  then show ?thesis
    using assms(1) eff(2,3,4) unfolding eff(7) by (auto simp: inv_claim_def)
next
  case (Transfer "from" to tid)
  note eff = transfer_effect[OF Transfer(3)]
  show ?thesis using assms(1) unfolding inv_claim_def eff(7,9) by simp
next
  case (Approved to tid)
  show ?thesis using assms(1) approve_effect(2)[OF Approved(3)] by (simp add: inv_claim_def)
next
  case (SetApproval operator ap)
  show ?thesis using assms(1) setApprovalForAll_effect[OF SetApproval(3)]
    by (simp add: inv_claim_def)
next
  case (Roles r a)
  note eff = roles_internal_effect[OF Roles(3)]
  show ?thesis using assms(1) unfolding inv_claim_def eff(3,5) by simp
qed


lemma inv_act_step:
  assumes "inv_act s" and "validEnv e" and ex: "exec H s e c = (s', out)"
  shows "inv_act s'"
  using ex
proof (cases rule: exec_cases)
  case Unchanged
  then show ?thesis using assms by simp
next
  case (Register a sn m d l i)
  note eff = registerProduct_effect[OF Register(3)]
  have act: "activations s' t = activations s t" for t
    by (simp add: activations_def eff(14))
  have fresh: "warrantyStart (productDetails s (tokenIdCounter s)) = 0"
    "activations s (tokenIdCounter s) = []"
    using assms(1) eff(4) by (auto simp: inv_act_def)
  show ?thesis
    using assms(1) eff(5) fresh unfolding inv_act_def act eff(6,9)
    by auto
next
  case (Submit tid d i)
  note eff = submitWarrantyClaim_effect[OF Submit(3)]
  have act: "activations s' t = activations s t" for t
    by (simp add: activations_def eff(12))
  show ?thesis
    using assms(1) unfolding inv_act_def act eff(5,8)
    by auto
next
  case (Process cid ap)
  note eff = processWarrantyClaim_effect[OF Process(3)]
  show ?thesis using assms(1) unfolding eff(4) by (simp add: inv_act_def activations_def)
next
  case (Record cid nts)
  note eff = recordService_effect[OF Record(3)]
  show ?thesis using assms(1) unfolding eff(7) by (simp add: inv_act_def activations_def)
next
  case (Transfer "from" to tid)
  note eff = transfer_effect[OF Transfer(3)]
  note ts = validEnv_timestamp(1)[OF assms(2)]
  show ?thesis
  proof (cases "owners s tid \<noteq> 0 \<and> hasRole s RETAILER_ROLE (owners s tid)
              \<and> \<not> hasRole s RETAILER_ROLE to
              \<and> warrantyStart (productDetails s tid) = 0")
    case True
    have act: "activations s' t = (if t = tid
        then [WarrantyActivated tid to (ucast (block_timestamp e))
               (ucast (block_timestamp e + ucast (warrantyDuration (productDetails s tid))))]
        else activations s t)" for t
      using True assms(1) by (auto simp: activations_def eff(12) inv_act_def)
    have pd: "productDetails s' = (productDetails s)(tid := (productDetails s tid)
                  \<lparr>warrantyStart := ucast (block_timestamp e),
                   warrantyExpiration :=
                     ucast (block_timestamp e + ucast (warrantyDuration (productDetails s tid)))\<rparr>)"
      using True eff(8) by simp
    show ?thesis
      using assms(1) eff(1) ts unfolding inv_act_def act pd eff(4)
      by auto
  next
    case False
    have act: "activations s' t = activations s t" for t
      using False by (auto simp: activations_def eff(12))
    have pd: "productDetails s' = productDetails s"
      using False eff(8) by auto
    show ?thesis
      using assms(1) eff(1) unfolding inv_act_def act pd eff(4)
      by auto
  qed
next
  case (Approved to tid)
  note eff = approve_effect[OF Approved(3)]
  show ?thesis using assms(1) unfolding eff(2) by (simp add: inv_act_def activations_def)
next
  case (SetApproval operator ap)
  note eff = setApprovalForAll_effect[OF SetApproval(3)]
  show ?thesis using assms(1) unfolding eff by (simp add: inv_act_def activations_def)
next
  case (Roles r a)
  note eff = roles_internal_effect[OF Roles(3)]
  show ?thesis using assms(1) unfolding inv_act_def eff(1,4,8) by simp
qed

lemma constructor_inv:
  "inv_ids (constructor e)" "inv_own (constructor e)" "inv_prod (constructor e)"
  "inv_claim (constructor e)" "inv_act (constructor e)"
  by (simp_all add: constructor_def grantRole_internal_def hasRole_def Let_def inv_ids_def
      inv_own_def inv_prod_def inv_claim_def inv_act_def activations_def emptyProduct_def
      emptyClaim_def)

lemma reachable_inv:
  assumes "reachable H s"
  shows "inv_ids s \<and> inv_own s \<and> inv_prod s \<and> inv_claim s \<and> inv_act s"
  using assms
proof (induction rule: reachable.induct)
  case (deployed e)
  show ?case by (simp add: constructor_inv)
next
  case (transacted s e c)
  obtain s' out where ex: "exec H s e c = (s', out)" by (cases "exec H s e c")
  show ?case
    using transacted ex inv_ids_step[OF _ ex] inv_own_step[OF _ _ _ ex]
      inv_prod_step[OF _ _ _ ex] inv_claim_step[OF _ ex] inv_act_step[OF _ _ ex]
    by simp
qed

subsection \<open>Histories\<close>

lemma run_reachable:
  assumes "reachable H s" and "\<forall>x \<in> set cs. validEnv (fst x)"
  shows "reachable H (fst (run H s cs))"
  using assms
proof (induction cs arbitrary: s)
  case Nil
  then show ?case by simp
next
  case (Cons x cs)
  obtain e c where x: "x = (e, c)" by (cases x)
  obtain s1 out where ex: "exec H s e c = (s1, out)" by (cases "exec H s e c")
  obtain s2 outs where rn: "run H s1 cs = (s2, outs)" by (cases "run H s1 cs")
  have "reachable H s1"
    using Cons.prems x reachable.transacted[of H s e c] ex by simp
  from Cons.IH[OF this] Cons.prems(2) show ?case
    by (simp add: x ex rn)
qed

lemmas scenario_defs = stateAfter_def scenario_def txn_def deployer_def retailerA_def
  customerC_def serialKey_def

lemmas contract_defs = constructor_def grantRole_internal_def revokeRole_internal_def
  hasRole_def grantRole_def revokeRole_def renounceRole_def registerProduct_def commit_def
  commitId_def safeMint_def mint_def Product_update_def ERC721_update_def ownerOf_internal_def
  isAuthorized_def transferFrom_def safeTransferFrom_def activateWarranty_def
  checkOnERC721Received_def onERC721Received_selector_def
  submitWarrantyClaim_def ownerOf_def processWarrantyClaim_def recordService_def
  approve_def setApprovalForAll_def emptyProduct_def emptyClaim_def Let_def

lemma word_le_one_eval: "(numeral (Num.Bit0 n) :: 'a::len word) \<le> 1 \<longleftrightarrow> unat (numeral (Num.Bit0 n) :: 'a word) \<le> 1"
  "(numeral (Num.Bit1 n) :: 'a::len word) \<le> 1 \<longleftrightarrow> unat (numeral (Num.Bit1 n) :: 'a word) \<le> 1"
  by (simp_all add: word_le_nat_alt)

lemma stateAfter_reachable: "reachable serialKey (stateAfter n)"
  unfolding stateAfter_def
proof (rule run_reachable)
  show "reachable serialKey (constructor (txn deployer 999))" by (rule reachable.deployed)
  have "\<forall>x \<in> set scenario. validEnv (fst x)"
    by (simp add: scenario_def txn_def validEnv_def deployer_def retailerA_def customerC_def)
  then show "\<forall>x \<in> set (take n scenario). validEnv (fst x)"
    by (meson in_set_takeD)
qed


lemma registeredIds_Cons:
  "registeredIds ((e, c) # cs) (out # outs) =
     (case c of RegisterProduct a sn m d l \<Rightarrow> (case out of NewId i \<Rightarrow> [i] | _ \<Rightarrow> []) | _ \<Rightarrow> [])
     @ registeredIds cs outs"
  by (cases c; cases out; simp)

lemma claimIds_Cons:
  "claimIds ((e, c) # cs) (out # outs) =
     (case c of SubmitWarrantyClaim t d \<Rightarrow> (case out of NewId i \<Rightarrow> [i] | _ \<Rightarrow> []) | _ \<Rightarrow> [])
     @ claimIds cs outs"
  by (cases c; cases out; simp)

lemma exec_counters:
  assumes ex: "exec H s e c = (s', out)"
  shows "(registeredIds [(e, c)] [out] = [] \<and> tokenIdCounter s' = tokenIdCounter s
          \<or> registeredIds [(e, c)] [out] = [tokenIdCounter s]
             \<and> unat (tokenIdCounter s') = Suc (unat (tokenIdCounter s)))
       \<and> (claimIds [(e, c)] [out] = [] \<and> claimIdCounter s' = claimIdCounter s
          \<or> claimIds [(e, c)] [out] = [claimIdCounter s]
             \<and> unat (claimIdCounter s') = Suc (unat (claimIdCounter s)))"
  using ex
proof (cases rule: exec_cases)
  case Unchanged
  then show ?thesis by (cases c) auto
next
  case (Register a sn m d l i)
  note eff = registerProduct_effect[OF Register(3)]
  show ?thesis using Register(1,2) eff(1,2,3,8) by (simp add: unat_succ_not_max)
next
  case (Submit tid d i)
  note eff = submitWarrantyClaim_effect[OF Submit(3)]
  show ?thesis using Submit(1,2) eff(1,2,3,7) by (simp add: unat_succ_not_max)
next
  case (Process cid ap)
  note eff = processWarrantyClaim_effect[OF Process(3)]
  show ?thesis using Process(1,2) unfolding eff(4) by simp
next
  case (Record cid nts)
  note eff = recordService_effect[OF Record(3)]
  show ?thesis using Record(1,2) unfolding eff(7) by simp
next
  case (Transfer "from" to tid)
  note eff = transfer_effect[OF Transfer(3)]
  show ?thesis using Transfer(1,2) eff(6,7) by auto
next
  case (Approved to tid)
  note eff = approve_effect[OF Approved(3)]
  show ?thesis using Approved(1,2) unfolding eff(2) by simp
next
  case (SetApproval operator ap)
  note eff = setApprovalForAll_effect[OF SetApproval(3)]
  show ?thesis using SetApproval(1,2) unfolding eff by simp
next
  case (Roles r a)
  note eff = roles_internal_effect[OF Roles(3)]
  show ?thesis using Roles(1,2) eff(2,3) by auto
qed

lemma ids_extend:
  fixes f :: "uint256 \<Rightarrow> nat"
  assumes "new = [] \<and> k1 = k \<or> new = [i] \<and> f i = k \<and> k1 = Suc k"
    and "map f rest = [k1 ..< k1 + length rest]" and "k' = k1 + length rest"
  shows "map f (new @ rest) = [k ..< k + length (new @ rest)] \<and> k' = k + length (new @ rest)"
  using assms by (auto simp: upt_conv_Cons simp del: upt_Suc)

lemma run_ids:
  assumes "run H s cs = (s', outs)"
  shows "map unat (registeredIds cs outs)
           = [unat (tokenIdCounter s) ..< unat (tokenIdCounter s) + length (registeredIds cs outs)]
       \<and> unat (tokenIdCounter s')
           = unat (tokenIdCounter s) + length (registeredIds cs outs)
       \<and> map unat (claimIds cs outs)
           = [unat (claimIdCounter s) ..< unat (claimIdCounter s) + length (claimIds cs outs)]
       \<and> unat (claimIdCounter s')
           = unat (claimIdCounter s) + length (claimIds cs outs)"
  using assms
proof (induction cs arbitrary: s outs)
  case Nil
  then show ?case by auto
next
  case (Cons x cs)
  obtain e c where x: "x = (e, c)" by (cases x)
  obtain s1 out where ex: "exec H s e c = (s1, out)" by (cases "exec H s e c")
  obtain outs1 where rn: "run H s1 cs = (s', outs1)" and outs: "outs = out # outs1"
    using Cons.prems x ex by (auto split: prod.splits)
  note ih = Cons.IH[OF rn]
  note st = exec_counters[OF ex]
  have r: "registeredIds (x # cs) outs = registeredIds [(e, c)] [out] @ registeredIds cs outs1"
    and cl: "claimIds (x # cs) outs = claimIds [(e, c)] [out] @ claimIds cs outs1"
    by (simp_all add: x outs registeredIds_Cons claimIds_Cons)
  have t: "registeredIds [(e, c)] [out] = [] \<and> unat (tokenIdCounter s1) = unat (tokenIdCounter s)
         \<or> registeredIds [(e, c)] [out] = [tokenIdCounter s]
            \<and> unat (tokenIdCounter s) = unat (tokenIdCounter s)
            \<and> unat (tokenIdCounter s1) = Suc (unat (tokenIdCounter s))"
    using st by auto
  have k: "claimIds [(e, c)] [out] = [] \<and> unat (claimIdCounter s1) = unat (claimIdCounter s)
         \<or> claimIds [(e, c)] [out] = [claimIdCounter s]
            \<and> unat (claimIdCounter s) = unat (claimIdCounter s)
            \<and> unat (claimIdCounter s1) = Suc (unat (claimIdCounter s))"
    using st by auto
  have "map unat (registeredIds [(e, c)] [out] @ registeredIds cs outs1)
           = [unat (tokenIdCounter s) ..< unat (tokenIdCounter s)
                + length (registeredIds [(e, c)] [out] @ registeredIds cs outs1)]
       \<and> unat (tokenIdCounter s') = unat (tokenIdCounter s)
                + length (registeredIds [(e, c)] [out] @ registeredIds cs outs1)"
    using t ih
    by (intro ids_extend[where ?f = unat and ?k1.0 = "unat (tokenIdCounter s1)"
          and ?i = "tokenIdCounter s"]) auto
  moreover have "map unat (claimIds [(e, c)] [out] @ claimIds cs outs1)
           = [unat (claimIdCounter s) ..< unat (claimIdCounter s)
                + length (claimIds [(e, c)] [out] @ claimIds cs outs1)]
       \<and> unat (claimIdCounter s') = unat (claimIdCounter s)
                + length (claimIds [(e, c)] [out] @ claimIds cs outs1)"
    using k ih
    by (intro ids_extend[where ?f = unat and ?k1.0 = "unat (claimIdCounter s1)"
          and ?i = "claimIdCounter s"]) auto
  ultimately show ?case
    unfolding r cl by blast
qed

lemma constructor_counters: "tokenIdCounter (constructor e) = 1" "claimIdCounter (constructor e) = 1"
  by (simp_all add: constructor_def grantRole_internal_def Let_def)

lemmas eval_defs = scenario_defs contract_defs word_le_one_eval returned_def rejecting_def
  lifetime_def emptySerialFirst_def

subsection \<open>Stability of warranty fields and of decided claims\<close>

lemma warranty_stable_step:
  assumes "inv_act s" and "warrantyStart (productDetails s tid) \<noteq> 0"
    and ex: "exec H s e c = (s', out)"
  shows "warrantyStart (productDetails s' tid) = warrantyStart (productDetails s tid)
       \<and> warrantyExpiration (productDetails s' tid) = warrantyExpiration (productDetails s tid)
       \<and> activations s' tid = activations s tid"
  using ex
proof (cases rule: exec_cases)
  case Unchanged
  then show ?thesis by simp
next
  case (Register a sn m d l i)
  note eff = registerProduct_effect[OF Register(3)]
  have "tid \<noteq> tokenIdCounter s" using assms(1,2) eff(4) by (auto simp: inv_act_def)
  then show ?thesis by (simp add: eff(9,14) activations_def)
next
  case (Submit t d i)
  note eff = submitWarrantyClaim_effect[OF Submit(3)]
  show ?thesis by (simp add: eff(8,12) activations_def)
next
  case (Process cid ap)
  note eff = processWarrantyClaim_effect[OF Process(3)]
  show ?thesis unfolding eff(4) by (simp add: activations_def)
next
  case (Record cid nts)
  note eff = recordService_effect[OF Record(3)]
  show ?thesis unfolding eff(7) by (simp add: activations_def)
next
  case (Transfer "from" to t)
  note eff = transfer_effect[OF Transfer(3)]
  show ?thesis using assms(2) by (auto simp: eff(8,12) activations_def)
next
  case (Approved to t)
  note eff = approve_effect[OF Approved(3)]
  show ?thesis unfolding eff(2) by (simp add: activations_def)
next
  case (SetApproval operator ap)
  note eff = setApprovalForAll_effect[OF SetApproval(3)]
  show ?thesis unfolding eff by (simp add: activations_def)
next
  case (Roles r a)
  note eff = roles_internal_effect[OF Roles(3)]
  show ?thesis by (simp add: eff(4,8))
qed

lemma warranty_stable_run:
  assumes "reachable H s" and "\<forall>x \<in> set cs. validEnv (fst x)"
    and "warrantyStart (productDetails s tid) \<noteq> 0"
  shows "warrantyStart (productDetails (fst (run H s cs)) tid)
           = warrantyStart (productDetails s tid)
       \<and> warrantyExpiration (productDetails (fst (run H s cs)) tid)
           = warrantyExpiration (productDetails s tid)"
  using assms
proof (induction cs arbitrary: s)
  case Nil
  then show ?case by simp
next
  case (Cons x cs)
  obtain e c where x: "x = (e, c)" by (cases x)
  obtain s1 out where ex: "exec H s e c = (s1, out)" by (cases "exec H s e c")
  obtain s2 outs where rn: "run H s1 cs = (s2, outs)" by (cases "run H s1 cs")
  have r1: "reachable H s1"
    using Cons.prems(1,2) x reachable.transacted[of H s e c] ex by simp
  have i: "inv_act s" using reachable_inv[OF Cons.prems(1)] by simp
  note st = warranty_stable_step[OF i Cons.prems(3) ex]
  have "warrantyStart (productDetails s1 tid) \<noteq> 0" using st Cons.prems(3) by simp
  from Cons.IH[OF r1 _ this] Cons.prems(2) st show ?case
    by (simp add: x ex rn)
qed

lemma claim_stable_step:
  assumes "inv_claim s" and ex: "exec H s e c = (s', out)"
  shows "(processed (warrantyClaims s cid) \<longrightarrow>
            processed (warrantyClaims s' cid)
            \<and> approved (warrantyClaims s' cid) = approved (warrantyClaims s cid)
            \<and> processedAt (warrantyClaims s' cid) = processedAt (warrantyClaims s cid))
       \<and> (serviceNotes (warrantyClaims s cid) \<noteq> [] \<longrightarrow>
            serviceNotes (warrantyClaims s' cid) = serviceNotes (warrantyClaims s cid))
       \<and> (serviceNotes (warrantyClaims s cid) = [] \<and> serviceNotes (warrantyClaims s' cid) \<noteq> []
            \<longrightarrow> processed (warrantyClaims s cid) \<and> approved (warrantyClaims s cid)
                \<and> (\<exists>nts. c = RecordService cid nts))"
  using ex
proof (cases rule: exec_cases)
  case Unchanged
  then show ?thesis by simp
next
  case (Register a sn m d l i)
  note eff = registerProduct_effect[OF Register(3)]
  show ?thesis by (simp add: eff(10))
next
  case (Submit t d i)
  note eff = submitWarrantyClaim_effect[OF Submit(3)]
  have "warrantyClaims s (claimIdCounter s) = emptyClaim"
    using assms(1) by (simp add: inv_claim_def)
  then show ?thesis by (auto simp: eff(9) emptyClaim_def)
next
  case (Process c' ap)
  note eff = processWarrantyClaim_effect[OF Process(3)]
  show ?thesis using eff(3) unfolding eff(4) by auto
next
  case (Record c' nts)
  note eff = recordService_effect[OF Record(3)]
  show ?thesis using eff(3,4,5) Record(1) unfolding eff(7) by auto
next
  case (Transfer "from" to t)
  note eff = transfer_effect[OF Transfer(3)]
  show ?thesis by (simp add: eff(9))
next
  case (Approved to t)
  note eff = approve_effect[OF Approved(3)]
  show ?thesis unfolding eff(2) by simp
next
  case (SetApproval operator ap)
  note eff = setApprovalForAll_effect[OF SetApproval(3)]
  show ?thesis unfolding eff by simp
next
  case (Roles r a)
  note eff = roles_internal_effect[OF Roles(3)]
  show ?thesis by (simp add: eff(5))
qed

lemma claim_stable_run:
  assumes "inv_claim s"
  shows "inv_claim (fst (run H s cs))
       \<and> (processed (warrantyClaims s cid) \<longrightarrow>
            processed (warrantyClaims (fst (run H s cs)) cid)
            \<and> approved (warrantyClaims (fst (run H s cs)) cid) = approved (warrantyClaims s cid)
            \<and> processedAt (warrantyClaims (fst (run H s cs)) cid)
                = processedAt (warrantyClaims s cid))
       \<and> (serviceNotes (warrantyClaims s cid) \<noteq> [] \<longrightarrow>
            serviceNotes (warrantyClaims (fst (run H s cs)) cid)
              = serviceNotes (warrantyClaims s cid))"
  using assms
proof (induction cs arbitrary: s)
  case Nil
  then show ?case by simp
next
  case (Cons x cs)
  obtain e c where x: "x = (e, c)" by (cases x)
  obtain s1 out where ex: "exec H s e c = (s1, out)" by (cases "exec H s e c")
  obtain s2 outs where rn: "run H s1 cs = (s2, outs)" by (cases "run H s1 cs")
  have i1: "inv_claim s1" by (rule inv_claim_step[OF Cons.prems ex])
  have r: "fst (run H s (x # cs)) = fst (run H s1 cs)" by (simp add: x ex rn)
  show ?case
    unfolding r
    using Cons.IH[OF i1] claim_stable_step[OF Cons.prems ex, of cid]
    by auto
qed

subsection \<open>No entry point raises \<open>WarrantyAlreadyActivated\<close>\<close>

lemma Product_update_not_already:
  "Product_update s e to tid auth \<noteq> Inl WarrantyAlreadyActivated"
  by (auto simp: Product_update_def ERC721_update_def activateWarranty_def
      ownerOf_internal_def hasRole_def Let_def split: if_splits sum.splits prod.splits)

lemma transferFrom_not_already:
  "transferFrom s e from to tid \<noteq> Inl WarrantyAlreadyActivated"
  using Product_update_not_already[of s e to tid "msg_sender e"]
  by (auto simp: transferFrom_def split: if_splits sum.splits prod.splits)

lemma checkOnERC721Received_not_already:
  "checkOnERC721Received e to \<noteq> Some WarrantyAlreadyActivated"
  by (simp add: checkOnERC721Received_def split: hookResult.splits)

lemma registerProduct_not_already:
  "registerProduct H s e a sn m d l \<noteq> Inl WarrantyAlreadyActivated"
proof -
  have "mint s1 e a k \<noteq> Inl WarrantyAlreadyActivated" for s1 k
    using Product_update_not_already[of s1 e a k 0]
    by (auto simp: mint_def split: if_splits sum.splits prod.splits)
  then have "safeMint s1 e a k \<noteq> Inl WarrantyAlreadyActivated" for s1 k
    using checkOnERC721Received_not_already[of e a]
    by (auto simp: safeMint_def split: if_splits sum.splits option.splits)
  then show ?thesis
    by (auto simp: registerProduct_def Let_def split: if_splits sum.splits)
qed

lemma exec_not_already:
  "snd (exec H s e c) \<noteq> Reverted WarrantyAlreadyActivated"
proof (cases c)
  case (RegisterProduct a sn m d l)
  then show ?thesis using registerProduct_not_already[of H s e a sn m d l]
    by (auto simp: commitId_def split: sum.splits)
next
  case (SubmitWarrantyClaim t d)
  then show ?thesis
    by (auto simp: commitId_def submitWarrantyClaim_def ownerOf_def Let_def
        split: sum.splits if_splits)
next
  case (ProcessWarrantyClaim cid ap)
  then show ?thesis
    by (auto simp: commit_def processWarrantyClaim_def Let_def split: sum.splits if_splits)
next
  case (RecordService cid nts)
  then show ?thesis
    by (auto simp: commit_def recordService_def Let_def split: sum.splits if_splits)
next
  case (TransferFrom f t i)
  then show ?thesis using transferFrom_not_already[of s e f t i]
    by (auto simp: commit_def split: sum.splits)
next
  case (SafeTransferFrom f t i)
  then show ?thesis
    using transferFrom_not_already[of s e f t i] checkOnERC721Received_not_already[of e t]
    by (auto simp: commit_def safeTransferFrom_def split: sum.splits if_splits option.splits)
next
  case (Approve t i)
  then show ?thesis
    by (auto simp: commit_def approve_def ownerOf_def split: sum.splits if_splits)
next
  case (SetApprovalForAll operator ap)
  then show ?thesis
    by (auto simp: commit_def setApprovalForAll_def split: sum.splits if_splits)
next
  case (GrantRole r a)
  then show ?thesis by (auto simp: commit_def grantRole_def split: sum.splits if_splits)
next
  case (RevokeRole r a)
  then show ?thesis by (auto simp: commit_def revokeRole_def split: sum.splits if_splits)
next
  case (RenounceRole r a)
  then show ?thesis by (auto simp: commit_def renounceRole_def split: sum.splits if_splits)
next
  case (Test k)
  then show ?thesis by simp
qed

lemma transfer_by_owner:
  assumes "owners s tid \<noteq> 0" and "msg_sender e = owners s tid" and "to \<noteq> 0"
    and "warrantyStart (productDetails s tid) \<noteq> 0"
  shows "\<exists>s'. transferFrom s e (owners s tid) to tid = Inr s'
           \<and> owners s' = (owners s)(tid := to)
           \<and> productDetails s' = productDetails s
           \<and> emitted s' = emitted s @ [Transfer (owners s tid) to tid]"
  using assms
  by (simp add: transferFrom_def Product_update_def ERC721_update_def ownerOf_internal_def
      isAuthorized_def hasRole_def Let_def)

subsection \<open>Activation within 64 bits\<close>

text \<open>
  Where the time plus the duration fits in 64 bits, an activating transfer stores the time as
  start and start plus duration as expiration, exactly, and no later history changes either.
\<close>

lemma activation_exact_in_range:
  assumes "reachable H s" and "validEnv e" and "transferFrom s e from to tid = Inr s'"
    and "hasRole s RETAILER_ROLE from" and "\<not> hasRole s RETAILER_ROLE to"
    and "warrantyStart (productDetails s tid) = 0"
    and "unat (block_timestamp e) + unat (warrantyDuration (productDetails s tid)) < 2 ^ 64"
    and "\<forall>x \<in> set cs. validEnv (fst x)"
  shows "unat (warrantyStart (productDetails s' tid)) = unat (block_timestamp e)
       \<and> unat (warrantyExpiration (productDetails s' tid))
           = unat (warrantyStart (productDetails s' tid))
             + unat (warrantyDuration (productDetails s' tid))
       \<and> warrantyStart (productDetails (fst (run H s' cs)) tid)
           = warrantyStart (productDetails s' tid)
       \<and> warrantyExpiration (productDetails (fst (run H s' cs)) tid)
           = warrantyExpiration (productDetails s' tid)"
proof -
  note eff = transfer_effect[OF assms(3)]
  have io: "inv_own s" using reachable_inv[OF assms(1)] by simp
  note own = transfer_owned[OF io assms(2,3)]
  have pd: "productDetails s' tid = (productDetails s tid)
      \<lparr>warrantyStart := ucast (block_timestamp e),
       warrantyExpiration :=
         ucast (block_timestamp e + ucast (warrantyDuration (productDetails s tid)))\<rparr>"
    using eff(2,8) own assms(4,5,6) by simp
  have lt: "unat (block_timestamp e) + unat (warrantyDuration (productDetails s tid))
      < 2 ^ 256"
    using assms(7) by (rule less_trans) simp
  have sum: "unat (block_timestamp e + ucast (warrantyDuration (productDetails s tid)))
      = unat (block_timestamp e) + unat (warrantyDuration (productDetails s tid))"
    using lt by (simp add: unat_add_lem[THEN iffD1] unat_ucast_64_256)
  have ex: "unat (ucast (block_timestamp e + ucast (warrantyDuration (productDetails s tid)))
        :: uint64)
      = unat (block_timestamp e) + unat (warrantyDuration (productDetails s tid))"
    using assms(7) by (simp add: unsigned_ucast_eq sum take_bit_nat_eq_self)
  have r': "reachable H s'"
    using reachable.transacted[OF assms(1,2), of "TransferFrom from to tid"] assms(3)
    by (simp add: commit_def)
  have started: "warrantyStart (productDetails s' tid) \<noteq> 0"
    using validEnv_timestamp(1)[OF assms(2)] by (simp add: pd)
  show ?thesis
    using warranty_stable_run[OF r' assms(8) started] validEnv_timestamp(2)[OF assms(2)] ex
    by (simp add: pd)
qed

subsection \<open>A registration whose receiver check fails\<close>

text \<open>
  After the four checks of \<open>registerProduct\<close> have passed, in a reachable state below the
  last id, a failed receiver check is the outcome of the call: \<open>ERC721InvalidReceiver\<close>
  for a hook that returns another value or reverts without data, the hook's own revert data
  otherwise.
\<close>

lemma registerProduct_receiver_fails:
  assumes "hasRole s MANUFACTURER_ROLE (msg_sender e)" and "sn \<noteq> []"
    and "tokenIdForSerialHash s (H sn) = 0" and "a \<noteq> 0" and "hasRole s RETAILER_ROLE a"
    and "reachable H s" and "tokenIdCounter s \<noteq> - 1"
    and "checkOnERC721Received e a = Some err"
  shows "registerProduct H s e a sn m d l = Inl err"
proof -
  have fresh: "owners s (tokenIdCounter s) = 0"
    using reachable_inv[OF assms(6)] by (simp add: inv_own_def)
  show ?thesis
    using assms fresh
    by (simp add: registerProduct_def safeMint_def mint_def Product_update_def
        ERC721_update_def ownerOf_internal_def Let_def)
qed

lemma registerProduct_hook_reverts:
  "registerProduct serialKey (stateAfter 1)
     \<lparr>msg_sender = deployer, block_timestamp = 1001,
      onERC721Received = (\<lambda>x. HookReverts ''no thanks'')\<rparr>
     retailerA ''SN-1'' ''Kettle'' 31536000 2 = Inl (ReceiverRevert ''no thanks'')"
  by (simp add: eval_defs)

subsection \<open>Facts of the worked history\<close>

lemma stateAfter1_facts:
  "hasRole (stateAfter 1) MANUFACTURER_ROLE 1"
  "hasRole (stateAfter 1) RETAILER_ROLE 2"
  "tokenIdForSerialHash (stateAfter 1) 4 = 0"
  "tokenIdCounter (stateAfter 1) = 1"
  by (simp_all add: eval_defs)

lemma stateAfter2_facts:
  "owners (stateAfter 2) 1 = 2"
  "warrantyStart (productDetails (stateAfter 2) 1) = 0"
  "warrantyDuration (productDetails (stateAfter 2) 1) = 31536000"
  "hasRole (stateAfter 2) RETAILER_ROLE 2"
  "\<not> hasRole (stateAfter 2) RETAILER_ROLE 3"
  "activations (stateAfter 2) 1 = []"
  by (simp_all add: eval_defs activations_def)

lemma stateAfter3_facts:
  "owners (stateAfter 3) 1 = 3"
  "productDetails (stateAfter 3) 1 =
      \<lparr>serialNumber = ''SN-1'', model = ''Kettle'', manufacturer = 1,
       manufactureTimestamp = 1001, warrantyDuration = 31536000,
       warrantyStart = 2000, warrantyExpiration = 31538000,
       warrantyClaimLimit = 2, warrantyClaimCount = 0\<rparr>"
  "claimIdCounter (stateAfter 3) = 1"
  "tokenIdCounter (stateAfter 3) = 2"
  "owners (stateAfter 3) 2 = 0"
  by (simp_all add: eval_defs)

lemma stateAfter7_facts:
  "warrantyClaims (stateAfter 7) 1 =
      \<lparr>tokenId = 1, customer = 3, issueDescription = ''leaks'', submittedAt = 3000,
       processed = True, approved = True, serviceNotes = [], processedAt = 4000\<rparr>"
  "warrantyClaims (stateAfter 7) 2 =
      \<lparr>tokenId = 1, customer = 3, issueDescription = ''no heat'', submittedAt = 3001,
       processed = True, approved = False, serviceNotes = [], processedAt = 4001\<rparr>"
  "hasRole (stateAfter 7) SERVICE_CENTER_ROLE 1"
  by (simp_all add: eval_defs)

lemma returned_facts:
  "owners returned 1 = 2"
  "productDetails returned 1 =
      \<lparr>serialNumber = ''SN-1'', model = ''Kettle'', manufacturer = 1,
       manufactureTimestamp = 1001, warrantyDuration = 31536000,
       warrantyStart = 2000, warrantyExpiration = 31538000,
       warrantyClaimLimit = 2, warrantyClaimCount = 0\<rparr>"
  "hasRole returned RETAILER_ROLE 2"
  "\<not> hasRole returned RETAILER_ROLE 3"
  by (simp_all add: eval_defs)

lemma returned_reachable: "reachable serialKey returned"
  unfolding returned_def
  by (rule run_reachable[OF stateAfter_reachable])
    (simp add: validEnv_def txn_def customerC_def)

section \<open>The claims\<close>

text \<open>
  C1 (as the code has it). On a record whose warranty has started, a transfer that matches the
  activation pattern does not fail with \<open>WarrantyAlreadyActivated\<close>: the hook only enters
  the activation when the start is still 0, so the transfer, made by the owner, completes as
  a plain transfer; no transaction changes the start or the expiration of such a record or
  logs another activation of it, and the log of a reachable state holds at most one
  activation per record. Only \<open>activateWarranty\<close> itself, entered on a started warranty,
  raises the error, and no transaction ends with it.
\<close>

theorem reactivation_is_skipped:
  assumes "reachable H s"
  shows "length (activations s tid) \<le> 1
       \<and> snd (exec H s e c) \<noteq> Reverted WarrantyAlreadyActivated
       \<and> (warrantyStart (productDetails s tid) \<noteq> 0 \<longrightarrow>
            activateWarranty s e tid to = Inl WarrantyAlreadyActivated
          \<and> (hasRole s RETAILER_ROLE (owners s tid) \<and> \<not> hasRole s RETAILER_ROLE to \<and> to \<noteq> 0
               \<and> msg_sender e = owners s tid
             \<longrightarrow> (\<exists>s'. exec H s e (TransferFrom (owners s tid) to tid) = (s', Done)
                    \<and> owners s' tid = to
                    \<and> productDetails s' = productDetails s
                    \<and> emitted s' = emitted s @ [Transfer (owners s tid) to tid]))
          \<and> warrantyStart (productDetails (fst (exec H s e c)) tid)
               = warrantyStart (productDetails s tid)
          \<and> warrantyExpiration (productDetails (fst (exec H s e c)) tid)
               = warrantyExpiration (productDetails s tid)
          \<and> activations (fst (exec H s e c)) tid = activations s tid)"
proof -
  have i: "inv_act s" using reachable_inv[OF assms(1)] by simp
  have f: "length (activations s tid) \<le> 1"
  proof (cases "warrantyStart (productDetails s tid) = 0")
    case True
    then show ?thesis using i by (simp add: inv_act_def)
  next
    case False
    then show ?thesis using i by (auto simp: inv_act_def)
  qed
  have b: "snd (exec H s e c) \<noteq> Reverted WarrantyAlreadyActivated"
    by (rule exec_not_already)
  have g: "activateWarranty s e tid to = Inl WarrantyAlreadyActivated
          \<and> (hasRole s RETAILER_ROLE (owners s tid) \<and> \<not> hasRole s RETAILER_ROLE to \<and> to \<noteq> 0
               \<and> msg_sender e = owners s tid
             \<longrightarrow> (\<exists>s'. exec H s e (TransferFrom (owners s tid) to tid) = (s', Done)
                    \<and> owners s' tid = to
                    \<and> productDetails s' = productDetails s
                    \<and> emitted s' = emitted s @ [Transfer (owners s tid) to tid]))
          \<and> warrantyStart (productDetails (fst (exec H s e c)) tid)
               = warrantyStart (productDetails s tid)
          \<and> warrantyExpiration (productDetails (fst (exec H s e c)) tid)
               = warrantyExpiration (productDetails s tid)
          \<and> activations (fst (exec H s e c)) tid = activations s tid"
    if started: "warrantyStart (productDetails s tid) \<noteq> 0"
  proof -
    have own: "owners s tid \<noteq> 0" using i started by (auto simp: inv_act_def)
    have a: "activateWarranty s e tid to = Inl WarrantyAlreadyActivated"
      using started by (simp add: activateWarranty_def Let_def)
    have c: "hasRole s RETAILER_ROLE (owners s tid) \<and> \<not> hasRole s RETAILER_ROLE to \<and> to \<noteq> 0
              \<and> msg_sender e = owners s tid
            \<longrightarrow> (\<exists>s'. exec H s e (TransferFrom (owners s tid) to tid) = (s', Done)
                   \<and> owners s' tid = to
                   \<and> productDetails s' = productDetails s
                   \<and> emitted s' = emitted s @ [Transfer (owners s tid) to tid])"
    proof
      assume p: "hasRole s RETAILER_ROLE (owners s tid) \<and> \<not> hasRole s RETAILER_ROLE to
              \<and> to \<noteq> 0 \<and> msg_sender e = owners s tid"
      obtain s' where "transferFrom s e (owners s tid) to tid = Inr s'"
          "owners s' = (owners s)(tid := to)" "productDetails s' = productDetails s"
          "emitted s' = emitted s @ [Transfer (owners s tid) to tid]"
        using transfer_by_owner[OF own _ _ started, of e to] p by blast
      then show "\<exists>s'. exec H s e (TransferFrom (owners s tid) to tid) = (s', Done)
                   \<and> owners s' tid = to
                   \<and> productDetails s' = productDetails s
                   \<and> emitted s' = emitted s @ [Transfer (owners s tid) to tid]"
        by (simp add: commit_def)
    qed
    obtain s1 out where ex: "exec H s e c = (s1, out)" by (cases "exec H s e c")
    have d: "warrantyStart (productDetails (fst (exec H s e c)) tid)
              = warrantyStart (productDetails s tid)
         \<and> warrantyExpiration (productDetails (fst (exec H s e c)) tid)
              = warrantyExpiration (productDetails s tid)
         \<and> activations (fst (exec H s e c)) tid = activations s tid"
      using warranty_stable_step[OF i started ex] by (simp add: ex)
    show ?thesis using a c d by blast
  qed
  show ?thesis using f b g by blast
qed

theorem reactivation_is_skipped_witness:
  "reachable serialKey returned
   \<and> warrantyStart (productDetails returned 1) \<noteq> 0
   \<and> hasRole returned RETAILER_ROLE (owners returned 1)
   \<and> \<not> hasRole returned RETAILER_ROLE customerC \<and> customerC \<noteq> 0
   \<and> msg_sender (txn retailerA 2600) = owners returned 1
   \<and> snd (exec serialKey returned (txn retailerA 2600) (TransferFrom retailerA customerC 1)) = Done
   \<and> warrantyStart (productDetails (fst (exec serialKey returned (txn retailerA 2600)
        (TransferFrom retailerA customerC 1))) 1) = 2000"
proof -
  have pre: "warrantyStart (productDetails returned 1) \<noteq> 0"
    "hasRole returned RETAILER_ROLE (owners returned 1) \<and> \<not> hasRole returned RETAILER_ROLE customerC
      \<and> customerC \<noteq> 0 \<and> msg_sender (txn retailerA 2600) = owners returned 1"
    "owners returned 1 = retailerA"
    by (simp_all add: returned_facts customerC_def retailerA_def txn_def)
  note t = reactivation_is_skipped[OF returned_reachable,
      where tid = 1 and e = "txn retailerA 2600" and to = customerC
        and c = "TransferFrom retailerA customerC 1",
      THEN conjunct2, THEN conjunct2, rule_format, OF pre(1)]
  have fin: "snd (exec serialKey returned (txn retailerA 2600)
      (TransferFrom retailerA customerC 1)) = Done"
    using t pre(2) unfolding pre(3) by (metis snd_conv)
  have kept: "warrantyStart (productDetails (fst (exec serialKey returned (txn retailerA 2600)
        (TransferFrom retailerA customerC 1))) 1) = warrantyStart (productDetails returned 1)"
    using t by blast
  show ?thesis
    using returned_reachable pre fin kept
    by (simp add: returned_facts retailerA_def customerC_def del: exec.simps)
qed

text \<open>
  C1 as stated fails: the product of the scenario, sold to customer 3 (warranty started at
  2000) and handed back to retailer 2, is sold again by the retailer to the customer. The
  transfer matches the activation pattern on a started warranty, and it completes.
\<close>

theorem reactivation_counterexample:
  "warrantyStart (productDetails returned 1) \<noteq> 0
   \<and> owners returned 1 = retailerA
   \<and> hasRole returned RETAILER_ROLE retailerA
   \<and> \<not> hasRole returned RETAILER_ROLE customerC
   \<and> customerC \<noteq> 0
   \<and> transferFrom returned (txn retailerA 2600) retailerA customerC 1
       \<noteq> Inl WarrantyAlreadyActivated
   \<and> snd (exec serialKey returned (txn retailerA 2600) (TransferFrom retailerA customerC 1)) = Done"
  by (simp add: returned_facts customerC_def retailerA_def txn_def transferFrom_def
      Product_update_def ERC721_update_def ownerOf_internal_def isAuthorized_def commit_def
      Let_def)

text \<open>
  C2. A transaction changes the warranty fields of a record exactly when it is a successful
  transfer of that record whose sender (the owner) holds the retailer role, whose recipient
  does not hold it and is not the zero address, while the start is still 0: then the start
  and the expiration are set and one \<open>WarrantyActivated\<close> is logged for the record. Every
  other transaction (transfers between retailers or between customers, failed transfers, a
  registration with its mint, claims, approvals, role changes) leaves the start and the
  expiration of every record as they were and logs no activation; a registration returns a
  record whose start and expiration are 0.
\<close>

theorem activation_exactly_when:
  assumes "reachable H s" and "validEnv e" and "exec H s e c = (s', out)"
  shows "(\<forall>from to.
            (c = TransferFrom from to tid \<or> c = SafeTransferFrom from to tid) \<and> out = Done
            \<and> hasRole s RETAILER_ROLE from \<and> \<not> hasRole s RETAILER_ROLE to \<and> to \<noteq> 0
            \<and> warrantyStart (productDetails s tid) = 0
          \<longrightarrow> productDetails s' tid = (productDetails s tid)
                  \<lparr>warrantyStart := ucast (block_timestamp e),
                   warrantyExpiration :=
                     ucast (block_timestamp e + ucast (warrantyDuration (productDetails s tid)))\<rparr>
              \<and> activations s' tid = activations s tid @
                  [WarrantyActivated tid to (ucast (block_timestamp e))
                     (ucast (block_timestamp e + ucast (warrantyDuration (productDetails s tid))))])
       \<and> (\<not> (\<exists>from to.
            (c = TransferFrom from to tid \<or> c = SafeTransferFrom from to tid) \<and> out = Done
            \<and> hasRole s RETAILER_ROLE from \<and> \<not> hasRole s RETAILER_ROLE to \<and> to \<noteq> 0
            \<and> warrantyStart (productDetails s tid) = 0)
          \<longrightarrow> warrantyStart (productDetails s' tid) = warrantyStart (productDetails s tid)
              \<and> warrantyExpiration (productDetails s' tid)
                  = warrantyExpiration (productDetails s tid)
              \<and> activations s' tid = activations s tid)
       \<and> (\<forall>a sn m d l i. c = RegisterProduct a sn m d l \<and> out = NewId i
          \<longrightarrow> owners s' i = a \<and> warrantyStart (productDetails s' i) = 0
              \<and> warrantyExpiration (productDetails s' i) = 0)"
  using assms(3)
proof (cases rule: exec_cases)
  case Unchanged
  then show ?thesis by auto
next
  case (Register a sn m d l i)
  note eff = registerProduct_effect[OF Register(3)]
  have i: "inv_act s" using reachable_inv[OF assms(1)] by simp
  have z: "warrantyStart (productDetails s (tokenIdCounter s)) = 0"
    "warrantyExpiration (productDetails s (tokenIdCounter s)) = 0"
    using i eff(4) by (auto simp: inv_act_def)
  show ?thesis
    using Register(1,2) z eff(1) by (auto simp: eff(6,9,14) activations_def)
next
  case (Submit t d i)
  note eff = submitWarrantyClaim_effect[OF Submit(3)]
  show ?thesis using Submit(1,2) by (auto simp: eff(8,12) activations_def)
next
  case (Process cid ap)
  note eff = processWarrantyClaim_effect[OF Process(3)]
  show ?thesis using Process(1,2) unfolding eff(4) by (auto simp: activations_def)
next
  case (Record cid nts)
  note eff = recordService_effect[OF Record(3)]
  show ?thesis using Record(1,2) unfolding eff(7) by (auto simp: activations_def)
next
  case (Transfer "from" to t)
  note eff = transfer_effect[OF Transfer(3)]
  have io: "inv_own s" using reachable_inv[OF assms(1)] by simp
  note own = transfer_owned[OF io assms(2) Transfer(3)]
  show ?thesis
  proof (cases "t = tid")
    case True
    show ?thesis
      using Transfer(1,2) own eff(1,2) True
      by (auto simp: eff(8,12) activations_def)
  next
    case False
    then show ?thesis
      using Transfer(1,2) by (auto simp: eff(8,12) activations_def)
  qed
next
  case (Approved to t)
  note eff = approve_effect[OF Approved(3)]
  show ?thesis using Approved(1,2) unfolding eff(2) by (auto simp: activations_def)
next
  case (SetApproval operator ap)
  note eff = setApprovalForAll_effect[OF SetApproval(3)]
  show ?thesis using SetApproval(1,2) unfolding eff by (auto simp: activations_def)
next
  case (Roles r a)
  note eff = roles_internal_effect[OF Roles(3)]
  show ?thesis using Roles(1,2) by (auto simp: eff(4,8))
qed

theorem activation_exactly_when_witness:
  "reachable serialKey (stateAfter 2) \<and> validEnv (txn retailerA 2000)
   \<and> snd (exec serialKey (stateAfter 2) (txn retailerA 2000) (TransferFrom retailerA customerC 1))
       = Done
   \<and> hasRole (stateAfter 2) RETAILER_ROLE retailerA
   \<and> \<not> hasRole (stateAfter 2) RETAILER_ROLE customerC \<and> customerC \<noteq> 0
   \<and> warrantyStart (productDetails (stateAfter 2) 1) = 0
   \<and> warrantyStart (productDetails (fst (exec serialKey (stateAfter 2) (txn retailerA 2000)
         (TransferFrom retailerA customerC 1))) 1) = 2000
   \<and> warrantyExpiration (productDetails (fst (exec serialKey (stateAfter 2) (txn retailerA 2000)
         (TransferFrom retailerA customerC 1))) 1) = 31538000
   \<and> activations (fst (exec serialKey (stateAfter 2) (txn retailerA 2000)
         (TransferFrom retailerA customerC 1))) 1 = [WarrantyActivated 1 customerC 2000 31538000]"
proof -
  have v: "validEnv (txn retailerA 2000)"
    by (simp add: validEnv_def txn_def retailerA_def)
  have d: "snd (exec serialKey (stateAfter 2) (txn retailerA 2000)
      (TransferFrom retailerA customerC 1)) = Done"
    by (simp add: stateAfter2_facts transferFrom_def Product_update_def ERC721_update_def
        ownerOf_internal_def isAuthorized_def activateWarranty_def commit_def Let_def
        txn_def retailerA_def customerC_def)
  have pre: "hasRole (stateAfter 2) RETAILER_ROLE retailerA
     \<and> \<not> hasRole (stateAfter 2) RETAILER_ROLE customerC \<and> customerC \<noteq> 0
     \<and> warrantyStart (productDetails (stateAfter 2) 1) = 0"
    by (simp add: stateAfter2_facts retailerA_def customerC_def)
  have ex: "exec serialKey (stateAfter 2) (txn retailerA 2000) (TransferFrom retailerA customerC 1)
      = (fst (exec serialKey (stateAfter 2) (txn retailerA 2000)
           (TransferFrom retailerA customerC 1)), Done)"
    using d by (metis prod.collapse)
  have "productDetails (fst (exec serialKey (stateAfter 2) (txn retailerA 2000)
         (TransferFrom retailerA customerC 1))) 1
      = (productDetails (stateAfter 2) 1)
          \<lparr>warrantyStart := ucast (block_timestamp (txn retailerA 2000)),
           warrantyExpiration := ucast (block_timestamp (txn retailerA 2000)
              + ucast (warrantyDuration (productDetails (stateAfter 2) 1)))\<rparr>
     \<and> activations (fst (exec serialKey (stateAfter 2) (txn retailerA 2000)
         (TransferFrom retailerA customerC 1))) 1
      = activations (stateAfter 2) 1 @
          [WarrantyActivated 1 customerC (ucast (block_timestamp (txn retailerA 2000)))
             (ucast (block_timestamp (txn retailerA 2000)
                + ucast (warrantyDuration (productDetails (stateAfter 2) 1))))]"
    using activation_exactly_when[OF stateAfter_reachable v ex, of 1] pre by blast
  then have r: "warrantyStart (productDetails (fst (exec serialKey (stateAfter 2)
         (txn retailerA 2000) (TransferFrom retailerA customerC 1))) 1) = 2000
     \<and> warrantyExpiration (productDetails (fst (exec serialKey (stateAfter 2)
         (txn retailerA 2000) (TransferFrom retailerA customerC 1))) 1) = 31538000
     \<and> activations (fst (exec serialKey (stateAfter 2) (txn retailerA 2000)
         (TransferFrom retailerA customerC 1))) 1 = [WarrantyActivated 1 customerC 2000 31538000]"
    by (simp add: stateAfter2_facts txn_def del: exec.simps)
  show ?thesis
    using stateAfter_reachable[of 2] v d pre r by (simp del: exec.simps)
qed

text \<open>
  C3. \<open>isWarrantyActive\<close> fails with \<open>ProductNotRegistered\<close> on an id that was never
  allocated; on a registered id it returns true exactly when the warranty has started, the
  time is not past the expiration and the claim count is below the limit, so it returns false
  once the count has reached the limit, whatever the time.
\<close>

theorem isWarrantyActive_spec:
  assumes "reachable H s"
  shows "((tid = 0 \<or> tokenIdCounter s \<le> tid)
            \<longrightarrow> isWarrantyActive s e tid = Inl ProductNotRegistered)
    \<and> (tid \<noteq> 0 \<and> tid < tokenIdCounter s
            \<longrightarrow> isWarrantyActive s e tid =
                 Inr (0 < unat (warrantyStart (productDetails s tid))
                      \<and> unat (block_timestamp e) \<le> unat (warrantyExpiration (productDetails s tid))
                      \<and> unat (warrantyClaimCount (productDetails s tid))
                          < unat (warrantyClaimLimit (productDetails s tid))))
    \<and> (tid \<noteq> 0 \<and> tid < tokenIdCounter s
         \<and> unat (warrantyClaimLimit (productDetails s tid))
              \<le> unat (warrantyClaimCount (productDetails s tid))
            \<longrightarrow> isWarrantyActive s e tid = Inr False)"
proof -
  have p: "manufactureTimestamp (productDetails s tid) \<noteq> 0 \<longleftrightarrow> (tid \<noteq> 0 \<and> tid < tokenIdCounter s)"
    using reachable_inv[OF assms] by (simp add: inv_prod_def)
  show ?thesis
  proof (cases "tid \<noteq> 0 \<and> tid < tokenIdCounter s")
    case True
    then have "manufactureTimestamp (productDetails s tid) \<noteq> 0" using p by simp
    then show ?thesis
      using True
      by (auto simp: isWarrantyActive_def Let_def unat_ucast_64_256 word_le_nat_alt
          word_less_nat_alt)
  next
    case False
    then have "manufactureTimestamp (productDetails s tid) = 0" using p by blast
    then show ?thesis
      using False by (auto simp: isWarrantyActive_def not_less)
  qed
qed

theorem isWarrantyActive_spec_witness:
  "reachable serialKey (stateAfter 5)
   \<and> (1 :: uint256) \<noteq> 0 \<and> 1 < tokenIdCounter (stateAfter 5)
   \<and> unat (warrantyClaimLimit (productDetails (stateAfter 5) 1))
        \<le> unat (warrantyClaimCount (productDetails (stateAfter 5) 1))
   \<and> unat (block_timestamp (txn customerC 3002))
        \<le> unat (warrantyExpiration (productDetails (stateAfter 5) 1))
   \<and> isWarrantyActive (stateAfter 5) (txn customerC 3002) 1 = Inr False
   \<and> tokenIdCounter (stateAfter 5) \<le> 2
   \<and> isWarrantyActive (stateAfter 5) (txn customerC 3002) 2 = Inl ProductNotRegistered"
proof -
  have r: "reachable serialKey (stateAfter 5)" by (rule stateAfter_reachable)
  have c: "tokenIdCounter (stateAfter 5) = 2"
    and p: "productDetails (stateAfter 5) 1 =
      \<lparr>serialNumber = ''SN-1'', model = ''Kettle'', manufacturer = 1,
       manufactureTimestamp = 1001, warrantyDuration = 31536000,
       warrantyStart = 2000, warrantyExpiration = 31538000,
       warrantyClaimLimit = 2, warrantyClaimCount = 2\<rparr>"
    by (simp_all add: eval_defs)
  show ?thesis
    using isWarrantyActive_spec[OF r, of 1 "txn customerC 3002"]
      isWarrantyActive_spec[OF r, of 2 "txn customerC 3002"] r
    by (simp add: c p txn_def customerC_def)
qed

text \<open>
  C4. Record ids and claim ids are handed out in sequence from 1: in every history from
  deployment the successful registrations return 1, 2, 3, ... in this order, and so do the
  successful claims; each counter is one more than the number of ids handed out. A
  registration that reverts leaves the state, and with it the counter, as it was.
\<close>

theorem ids_sequential:
  assumes "run H (constructor e0) cs = (s, outs)"
  shows "map unat (registeredIds cs outs) = [1 ..< Suc (length (registeredIds cs outs))]
       \<and> map unat (claimIds cs outs) = [1 ..< Suc (length (claimIds cs outs))]
       \<and> unat (tokenIdCounter s) = Suc (length (registeredIds cs outs))
       \<and> unat (claimIdCounter s) = Suc (length (claimIds cs outs))
       \<and> (\<forall>e a sn m d l err.
             snd (exec H s e (RegisterProduct a sn m d l)) = Reverted err
             \<longrightarrow> fst (exec H s e (RegisterProduct a sn m d l)) = s)"
proof -
  have "\<forall>e a sn m d l err.
             snd (exec H s e (RegisterProduct a sn m d l)) = Reverted err
             \<longrightarrow> fst (exec H s e (RegisterProduct a sn m d l)) = s"
    by (auto simp: commitId_def split: sum.splits)
  then show ?thesis
    using run_ids[OF assms] by (simp add: constructor_counters)
qed

theorem ids_sequential_witness:
  "snd (run serialKey (constructor (txn deployer 999)) emptySerialFirst)
     = [Reverted (SerialNumberEmpty ''serialnumber empty''), NewId 1]
   \<and> registeredIds emptySerialFirst
        (snd (run serialKey (constructor (txn deployer 999)) emptySerialFirst)) = [1]
   \<and> unat (tokenIdCounter (fst (run serialKey (constructor (txn deployer 999)) emptySerialFirst)))
       = 2"
proof -
  have o: "snd (run serialKey (constructor (txn deployer 999)) emptySerialFirst)
     = [Reverted (SerialNumberEmpty ''serialnumber empty''), NewId 1]"
    by (simp add: eval_defs)
  have i: "registeredIds emptySerialFirst
     [Reverted (SerialNumberEmpty ''serialnumber empty''), NewId 1] = [1]"
    by (simp add: emptySerialFirst_def)
  have h: "run serialKey (constructor (txn deployer 999)) emptySerialFirst
     = (fst (run serialKey (constructor (txn deployer 999)) emptySerialFirst),
        snd (run serialKey (constructor (txn deployer 999)) emptySerialFirst))"
    by simp
  have "unat (tokenIdCounter (fst (run serialKey (constructor (txn deployer 999)) emptySerialFirst)))
       = Suc (length (registeredIds emptySerialFirst
           (snd (run serialKey (constructor (txn deployer 999)) emptySerialFirst))))"
    using ids_sequential[OF h] by blast
  then show ?thesis
    by (simp add: o i)
qed

text \<open>
  C5 (as the code has it). For a caller with the manufacturer role \<open>registerProduct\<close> checks,
  in this order: the serial number is not empty (\<open>SerialNumberEmpty\<close>), its hash is not
  indexed (\<open>SerialNumberExists\<close>), the initial owner is not the zero address
  (\<open>ZeroAddress\<close>), the initial owner is a retailer (\<open>NotRetailer\<close>). When all hold and the
  initial owner passes the receiver check of the safe mint, in a reachable state whose id
  counter has not reached the last 256 bit value, the record is stored with start, expiration
  and claim count 0, the owner is the initial owner and the new id is returned.
\<close>

theorem registerProduct_order:
  assumes "hasRole s MANUFACTURER_ROLE (msg_sender e)"
  shows "(sn = [] \<longrightarrow> registerProduct H s e a sn m d l
                        = Inl (SerialNumberEmpty ''serialnumber empty''))
    \<and> (sn \<noteq> [] \<and> tokenIdForSerialHash s (H sn) \<noteq> 0
        \<longrightarrow> registerProduct H s e a sn m d l
              = Inl (SerialNumberExists ''serialnumber already exists''))
    \<and> (sn \<noteq> [] \<and> tokenIdForSerialHash s (H sn) = 0 \<and> a = 0
        \<longrightarrow> registerProduct H s e a sn m d l = Inl (ZeroAddress ''address equals to zero''))
    \<and> (sn \<noteq> [] \<and> tokenIdForSerialHash s (H sn) = 0 \<and> a \<noteq> 0 \<and> \<not> hasRole s RETAILER_ROLE a
        \<longrightarrow> registerProduct H s e a sn m d l = Inl (NotRetailer ''not retailer''))
    \<and> (sn \<noteq> [] \<and> tokenIdForSerialHash s (H sn) = 0 \<and> a \<noteq> 0 \<and> hasRole s RETAILER_ROLE a
         \<and> reachable H s \<and> tokenIdCounter s \<noteq> - 1 \<and> checkOnERC721Received e a = None
        \<longrightarrow> (\<exists>s'. registerProduct H s e a sn m d l = Inr (s', tokenIdCounter s)
               \<and> productDetails s' (tokenIdCounter s) =
                   \<lparr>serialNumber = sn, model = m, manufacturer = msg_sender e,
                    manufactureTimestamp = ucast (block_timestamp e), warrantyDuration = d,
                    warrantyStart = 0, warrantyExpiration = 0,
                    warrantyClaimLimit = l, warrantyClaimCount = 0\<rparr>
               \<and> owners s' (tokenIdCounter s) = a
               \<and> tokenIdForSerialHash s' (H sn) = tokenIdCounter s))"
proof -
  have fresh: "owners s (tokenIdCounter s) = 0" if "reachable H s"
    using reachable_inv[OF that] by (simp add: inv_own_def)
  show ?thesis
    using assms fresh
    by (simp add: registerProduct_def safeMint_def mint_def Product_update_def
        ERC721_update_def ownerOf_internal_def Let_def)
qed

theorem registerProduct_order_witness:
  "hasRole (stateAfter 1) MANUFACTURER_ROLE (msg_sender (txn deployer 1001))
   \<and> tokenIdForSerialHash (stateAfter 1) (serialKey ''SN-1'') = 0
   \<and> retailerA \<noteq> 0 \<and> hasRole (stateAfter 1) RETAILER_ROLE retailerA
   \<and> reachable serialKey (stateAfter 1) \<and> tokenIdCounter (stateAfter 1) \<noteq> - 1
   \<and> checkOnERC721Received (txn deployer 1001) retailerA = None
   \<and> map_sum id snd (registerProduct serialKey (stateAfter 1) (txn deployer 1001) retailerA
        ''SN-1'' ''Kettle'' 31536000 2) = Inr 1
   \<and> registerProduct serialKey (stateAfter 1) (txn deployer 1001) retailerA
        [] ''Kettle'' 31536000 2 = Inl (SerialNumberEmpty ''serialnumber empty'')"
proof -
  have h: "hasRole (stateAfter 1) MANUFACTURER_ROLE (msg_sender (txn deployer 1001))"
    by (simp add: stateAfter1_facts txn_def deployer_def del: One_nat_def)
  have pre: "''SN-1'' \<noteq> [] \<and> tokenIdForSerialHash (stateAfter 1) (serialKey ''SN-1'') = 0
     \<and> retailerA \<noteq> 0 \<and> hasRole (stateAfter 1) RETAILER_ROLE retailerA
     \<and> reachable serialKey (stateAfter 1) \<and> tokenIdCounter (stateAfter 1) \<noteq> - 1
     \<and> checkOnERC721Received (txn deployer 1001) retailerA = None"
    using stateAfter_reachable[of 1]
    by (simp add: stateAfter1_facts serialKey_def retailerA_def txn_def
        checkOnERC721Received_def del: One_nat_def)
  obtain s' where "registerProduct serialKey (stateAfter 1) (txn deployer 1001) retailerA
        ''SN-1'' ''Kettle'' 31536000 2 = Inr (s', tokenIdCounter (stateAfter 1))"
    using registerProduct_order[OF h, of "''SN-1''" serialKey retailerA "''Kettle''" 31536000 2]
      pre by blast
  then have ok: "map_sum id snd (registerProduct serialKey (stateAfter 1) (txn deployer 1001)
        retailerA ''SN-1'' ''Kettle'' 31536000 2) = Inr 1"
    by (simp add: stateAfter1_facts del: One_nat_def)
  have emp: "registerProduct serialKey (stateAfter 1) (txn deployer 1001) retailerA
        [] ''Kettle'' 31536000 2 = Inl (SerialNumberEmpty ''serialnumber empty'')"
    using registerProduct_order[OF h, of "[]" serialKey retailerA "''Kettle''" 31536000 2]
    by blast
  show ?thesis using h pre ok emp by (simp del: One_nat_def)
qed

text \<open>
  C5 as stated fails: with all four preconditions true, a registration to a retailer that is
  a contract whose hook returns four zero bytes, not the selector, reverts with
  \<open>ERC721InvalidReceiver\<close>.
\<close>

theorem registerProduct_counterexample:
  "hasRole (stateAfter 1) MANUFACTURER_ROLE (msg_sender (rejecting deployer 1001))
   \<and> ''SN-1'' \<noteq> []
   \<and> tokenIdForSerialHash (stateAfter 1) (serialKey ''SN-1'') = 0
   \<and> retailerA \<noteq> 0
   \<and> hasRole (stateAfter 1) RETAILER_ROLE retailerA
   \<and> registerProduct serialKey (stateAfter 1) (rejecting deployer 1001) retailerA
        ''SN-1'' ''Kettle'' 31536000 2 = Inl (ERC721InvalidReceiver retailerA)"
  by (simp add: eval_defs)

text \<open>
  C6. On a registered product (one that has an owner) \<open>submitWarrantyClaim\<close> checks, in this
  order: the caller is the owner (\<open>NotOwner\<close>), the warranty has started
  (\<open>WarrantyNotActivated\<close>), the time is not past the expiration (\<open>WarrantyExpired\<close>), the
  claim count is below the limit (\<open>ClaimLimitReached\<close>), the description is not empty
  (\<open>IssueDescriptionEmpty\<close>). When all hold (and the claim counter has not reached the last
  256 bit value) the count goes up by one and the claim is stored unprocessed, unapproved,
  without notes, with decision time 0 and the owner as customer, under the next claim id.
\<close>

theorem submitWarrantyClaim_order:
  assumes "ownerOf_internal s tid \<noteq> 0"
  shows "(msg_sender e \<noteq> ownerOf_internal s tid
          \<longrightarrow> submitWarrantyClaim s e tid d = Inl NotOwner)
    \<and> (msg_sender e = ownerOf_internal s tid \<and> warrantyStart (productDetails s tid) = 0
          \<longrightarrow> submitWarrantyClaim s e tid d = Inl WarrantyNotActivated)
    \<and> (msg_sender e = ownerOf_internal s tid \<and> warrantyStart (productDetails s tid) \<noteq> 0
         \<and> unat (warrantyExpiration (productDetails s tid)) < unat (block_timestamp e)
          \<longrightarrow> submitWarrantyClaim s e tid d = Inl WarrantyExpired)
    \<and> (msg_sender e = ownerOf_internal s tid \<and> warrantyStart (productDetails s tid) \<noteq> 0
         \<and> unat (block_timestamp e) \<le> unat (warrantyExpiration (productDetails s tid))
         \<and> unat (warrantyClaimLimit (productDetails s tid))
              \<le> unat (warrantyClaimCount (productDetails s tid))
          \<longrightarrow> submitWarrantyClaim s e tid d = Inl ClaimLimitReached)
    \<and> (msg_sender e = ownerOf_internal s tid \<and> warrantyStart (productDetails s tid) \<noteq> 0
         \<and> unat (block_timestamp e) \<le> unat (warrantyExpiration (productDetails s tid))
         \<and> unat (warrantyClaimCount (productDetails s tid))
              < unat (warrantyClaimLimit (productDetails s tid))
         \<and> d = []
          \<longrightarrow> submitWarrantyClaim s e tid d = Inl IssueDescriptionEmpty)
    \<and> (msg_sender e = ownerOf_internal s tid \<and> warrantyStart (productDetails s tid) \<noteq> 0
         \<and> unat (block_timestamp e) \<le> unat (warrantyExpiration (productDetails s tid))
         \<and> unat (warrantyClaimCount (productDetails s tid))
              < unat (warrantyClaimLimit (productDetails s tid))
         \<and> d \<noteq> [] \<and> claimIdCounter s \<noteq> - 1
          \<longrightarrow> (\<exists>s'. submitWarrantyClaim s e tid d = Inr (s', claimIdCounter s)
                \<and> unat (warrantyClaimCount (productDetails s' tid))
                    = unat (warrantyClaimCount (productDetails s tid)) + 1
                \<and> warrantyClaims s' (claimIdCounter s)
                    = \<lparr>tokenId = tid, customer = ownerOf_internal s tid,
                       issueDescription = d, submittedAt = ucast (block_timestamp e),
                       processed = False, approved = False, serviceNotes = [],
                       processedAt = 0\<rparr>))"
proof -
  have cnt: "unat (warrantyClaimCount (productDetails s tid) + 1)
             = unat (warrantyClaimCount (productDetails s tid)) + 1"
    and nomax: "warrantyClaimCount (productDetails s tid) \<noteq> - 1"
    if "unat (warrantyClaimCount (productDetails s tid))
          < unat (warrantyClaimLimit (productDetails s tid))"
    using that unat_succ_below[of "warrantyClaimCount (productDetails s tid)"
        "warrantyClaimLimit (productDetails s tid)"]
    by auto
  show ?thesis
    using assms cnt nomax
    by (simp add: submitWarrantyClaim_def ownerOf_def Let_def unat_ucast_64_256
        word_le_nat_alt word_less_nat_alt not_le not_less)
qed

theorem submitWarrantyClaim_order_witness:
  "ownerOf_internal (stateAfter 3) 1 \<noteq> 0
   \<and> msg_sender (txn customerC 3000) = ownerOf_internal (stateAfter 3) 1
   \<and> warrantyStart (productDetails (stateAfter 3) 1) \<noteq> 0
   \<and> unat (block_timestamp (txn customerC 3000))
        \<le> unat (warrantyExpiration (productDetails (stateAfter 3) 1))
   \<and> unat (warrantyClaimCount (productDetails (stateAfter 3) 1))
        < unat (warrantyClaimLimit (productDetails (stateAfter 3) 1))
   \<and> claimIdCounter (stateAfter 3) \<noteq> - 1
   \<and> map_sum id snd (submitWarrantyClaim (stateAfter 3) (txn customerC 3000) 1 ''leaks'') = Inr 1
   \<and> msg_sender (txn retailerA 3000) \<noteq> ownerOf_internal (stateAfter 3) 1
   \<and> submitWarrantyClaim (stateAfter 3) (txn retailerA 3000) 1 ''leaks'' = Inl NotOwner"
proof -
  have o: "ownerOf_internal (stateAfter 3) 1 \<noteq> 0"
    by (simp add: ownerOf_internal_def stateAfter3_facts)
  have pre: "msg_sender (txn customerC 3000) = ownerOf_internal (stateAfter 3) 1
     \<and> warrantyStart (productDetails (stateAfter 3) 1) \<noteq> 0
     \<and> unat (block_timestamp (txn customerC 3000))
          \<le> unat (warrantyExpiration (productDetails (stateAfter 3) 1))
     \<and> unat (warrantyClaimCount (productDetails (stateAfter 3) 1))
          < unat (warrantyClaimLimit (productDetails (stateAfter 3) 1))
     \<and> ''leaks'' \<noteq> [] \<and> claimIdCounter (stateAfter 3) \<noteq> - 1"
    by (simp add: ownerOf_internal_def stateAfter3_facts txn_def customerC_def)
  have other: "msg_sender (txn retailerA 3000) \<noteq> ownerOf_internal (stateAfter 3) 1"
    by (simp add: ownerOf_internal_def stateAfter3_facts txn_def retailerA_def)
  obtain s' where "submitWarrantyClaim (stateAfter 3) (txn customerC 3000) 1 ''leaks''
      = Inr (s', claimIdCounter (stateAfter 3))"
    using submitWarrantyClaim_order[OF o, of "txn customerC 3000" "''leaks''"] pre by blast
  then have ok: "map_sum id snd (submitWarrantyClaim (stateAfter 3) (txn customerC 3000) 1 ''leaks'')
      = Inr 1"
    by (simp add: stateAfter3_facts)
  have no: "submitWarrantyClaim (stateAfter 3) (txn retailerA 3000) 1 ''leaks'' = Inl NotOwner"
    using submitWarrantyClaim_order[OF o, of "txn retailerA 3000" "''leaks''"] other by blast
  show ?thesis using o pre other ok no by simp
qed

text \<open>
  C7. For a caller with the service centre role \<open>recordService\<close> checks, in this order: the
  claim exists (\<open>ClaimNotExist\<close>), it is processed and approved (\<open>ClaimNotApproved\<close>), no
  notes are stored yet (\<open>ServiceAlreadyRecorded\<close>), the new notes are not empty
  (\<open>ServiceNotesEmpty\<close>); then it stores the notes. So an existing claim that is unprocessed
  or rejected always gets \<open>ClaimNotApproved\<close>.
\<close>

theorem recordService_order:
  assumes "hasRole s SERVICE_CENTER_ROLE (msg_sender e)"
  shows "(tokenId (warrantyClaims s cid) = 0 \<longrightarrow> recordService s e cid nts = Inl ClaimNotExist)
    \<and> (tokenId (warrantyClaims s cid) \<noteq> 0
         \<and> \<not> (processed (warrantyClaims s cid) \<and> approved (warrantyClaims s cid))
        \<longrightarrow> recordService s e cid nts = Inl ClaimNotApproved)
    \<and> (tokenId (warrantyClaims s cid) \<noteq> 0
         \<and> processed (warrantyClaims s cid) \<and> approved (warrantyClaims s cid)
         \<and> serviceNotes (warrantyClaims s cid) \<noteq> []
        \<longrightarrow> recordService s e cid nts = Inl ServiceAlreadyRecorded)
    \<and> (tokenId (warrantyClaims s cid) \<noteq> 0
         \<and> processed (warrantyClaims s cid) \<and> approved (warrantyClaims s cid)
         \<and> serviceNotes (warrantyClaims s cid) = [] \<and> nts = []
        \<longrightarrow> recordService s e cid nts = Inl ServiceNotesEmpty)
    \<and> (tokenId (warrantyClaims s cid) \<noteq> 0
         \<and> processed (warrantyClaims s cid) \<and> approved (warrantyClaims s cid)
         \<and> serviceNotes (warrantyClaims s cid) = [] \<and> nts \<noteq> []
        \<longrightarrow> (\<exists>s'. recordService s e cid nts = Inr s'
               \<and> warrantyClaims s' cid = (warrantyClaims s cid)\<lparr>serviceNotes := nts\<rparr>))"
  using assms by (simp add: recordService_def Let_def)

theorem recordService_order_witness:
  "hasRole (stateAfter 7) SERVICE_CENTER_ROLE (msg_sender (txn deployer 5000))
   \<and> tokenId (warrantyClaims (stateAfter 7) 2) \<noteq> 0
   \<and> \<not> approved (warrantyClaims (stateAfter 7) 2)
   \<and> recordService (stateAfter 7) (txn deployer 5000) 2 ''mended'' = Inl ClaimNotApproved
   \<and> processed (warrantyClaims (stateAfter 7) 1) \<and> approved (warrantyClaims (stateAfter 7) 1)
   \<and> serviceNotes (warrantyClaims (stateAfter 7) 1) = []
   \<and> recordService (stateAfter 7) (txn deployer 5000) 1 [] = Inl ServiceNotesEmpty"
proof -
  have h: "hasRole (stateAfter 7) SERVICE_CENTER_ROLE (msg_sender (txn deployer 5000))"
    by (simp add: stateAfter7_facts txn_def deployer_def)
  have f2: "tokenId (warrantyClaims (stateAfter 7) 2) \<noteq> 0
      \<and> \<not> approved (warrantyClaims (stateAfter 7) 2)"
    and f1: "tokenId (warrantyClaims (stateAfter 7) 1) \<noteq> 0
      \<and> processed (warrantyClaims (stateAfter 7) 1) \<and> approved (warrantyClaims (stateAfter 7) 1)
      \<and> serviceNotes (warrantyClaims (stateAfter 7) 1) = []"
    by (simp_all add: stateAfter7_facts)
  have r2: "recordService (stateAfter 7) (txn deployer 5000) 2 ''mended'' = Inl ClaimNotApproved"
    using recordService_order[OF h, of 2 "''mended''"] f2 by blast
  have r1: "recordService (stateAfter 7) (txn deployer 5000) 1 [] = Inl ServiceNotesEmpty"
    using recordService_order[OF h, of 1 "[]"] f1 by blast
  show ?thesis using h f1 f2 r1 r2 by simp
qed

text \<open>
  C8. A claim is decided at most once and serviced at most once: on a processed claim
  \<open>processWarrantyClaim\<close> fails with \<open>ClaimAlreadyProcessed\<close>, and through every later
  history the claim stays processed with the same decision and decision time; service notes,
  once set, stay as they are; and a transaction that sets the notes of a claim is a
  \<open>recordService\<close> on a claim that was processed and approved before it.
\<close>

theorem claim_decided_once:
  assumes "reachable H s"
  shows "(processed (warrantyClaims s cid) \<and> hasRole s SERVICE_CENTER_ROLE (msg_sender e)
            \<longrightarrow> processWarrantyClaim s e cid ap = Inl ClaimAlreadyProcessed)
       \<and> (processed (warrantyClaims s cid) \<longrightarrow>
            processed (warrantyClaims (fst (run H s cs)) cid)
            \<and> approved (warrantyClaims (fst (run H s cs)) cid) = approved (warrantyClaims s cid)
            \<and> processedAt (warrantyClaims (fst (run H s cs)) cid)
                = processedAt (warrantyClaims s cid))
       \<and> (serviceNotes (warrantyClaims s cid) \<noteq> [] \<longrightarrow>
            serviceNotes (warrantyClaims (fst (run H s cs)) cid)
              = serviceNotes (warrantyClaims s cid))
       \<and> (serviceNotes (warrantyClaims s cid) = []
            \<and> serviceNotes (warrantyClaims (fst (exec H s e c)) cid) \<noteq> []
            \<longrightarrow> processed (warrantyClaims s cid) \<and> approved (warrantyClaims s cid)
                \<and> (\<exists>nts. c = RecordService cid nts))"
proof -
  have i: "inv_claim s" using reachable_inv[OF assms] by simp
  have a: "processed (warrantyClaims s cid) \<and> hasRole s SERVICE_CENTER_ROLE (msg_sender e)
            \<longrightarrow> processWarrantyClaim s e cid ap = Inl ClaimAlreadyProcessed"
    using i by (auto simp: processWarrantyClaim_def inv_claim_def Let_def)
  obtain s1 out where ex: "exec H s e c = (s1, out)" by (cases "exec H s e c")
  show ?thesis
    using a claim_stable_run[OF i, of H cs cid] claim_stable_step[OF i ex, of cid]
    by (simp add: ex)
qed

theorem claim_decided_once_witness:
  "reachable serialKey (stateAfter 7)
   \<and> processed (warrantyClaims (stateAfter 7) 2)
   \<and> hasRole (stateAfter 7) SERVICE_CENTER_ROLE (msg_sender (txn deployer 4500))
   \<and> processWarrantyClaim (stateAfter 7) (txn deployer 4500) 2 True = Inl ClaimAlreadyProcessed
   \<and> \<not> approved (warrantyClaims (fst (run serialKey (stateAfter 7)
          [(txn deployer 4500, ProcessWarrantyClaim 2 True),
           (txn deployer 4600, RecordService 2 ''mended'')])) 2)
   \<and> serviceNotes (warrantyClaims (stateAfter 7) 1) = []
   \<and> serviceNotes (warrantyClaims (fst (exec serialKey (stateAfter 7) (txn deployer 5000)
          (RecordService 1 ''replaced seal''))) 1) \<noteq> []
   \<and> approved (warrantyClaims (stateAfter 7) 1)"
proof -
  have r: "reachable serialKey (stateAfter 7)" by (rule stateAfter_reachable)
  have c2: "warrantyClaims (stateAfter 7) 2 =
      \<lparr>tokenId = 1, customer = 3, issueDescription = ''no heat'', submittedAt = 3001,
       processed = True, approved = False, serviceNotes = [], processedAt = 4001\<rparr>"
    and c1: "warrantyClaims (stateAfter 7) 1 =
      \<lparr>tokenId = 1, customer = 3, issueDescription = ''leaks'', submittedAt = 3000,
       processed = True, approved = True, serviceNotes = [], processedAt = 4000\<rparr>"
    and h: "hasRole (stateAfter 7) SERVICE_CENTER_ROLE 1"
    by (simp_all add: eval_defs)
  have n: "serviceNotes (warrantyClaims (fst (exec serialKey (stateAfter 7) (txn deployer 5000)
          (RecordService 1 ''replaced seal''))) 1) = ''replaced seal''"
    by (simp add: recordService_def commit_def Let_def c1 h txn_def deployer_def)
  have p2: "processed (warrantyClaims (stateAfter 7) 2)"
    and hs: "hasRole (stateAfter 7) SERVICE_CENTER_ROLE (msg_sender (txn deployer 4500))"
    by (simp_all add: c2 h txn_def deployer_def)
  have again: "processWarrantyClaim (stateAfter 7) (txn deployer 4500) 2 True
      = Inl ClaimAlreadyProcessed"
    and kept: "approved (warrantyClaims (fst (run serialKey (stateAfter 7)
          [(txn deployer 4500, ProcessWarrantyClaim 2 True),
           (txn deployer 4600, RecordService 2 ''mended'')])) 2)
        = approved (warrantyClaims (stateAfter 7) 2)"
    using claim_decided_once[OF r, of 2 "txn deployer 4500" True
        "[(txn deployer 4500, ProcessWarrantyClaim 2 True),
          (txn deployer 4600, RecordService 2 ''mended'')]"] p2 hs
    by blast+
  show ?thesis
    using r p2 hs again kept by (simp add: c1 c2 n del: exec.simps run.simps)
qed

text \<open>
  C9. The activation at a duration for which the time plus the duration does not fit in 64
  bits. The product of \<open>lifetime\<close> is registered with the largest duration,
  18446744073709551615 seconds, and sold at time 1700000100: the activation stores the time
  as start and 1700000099 as expiration, one second before the start, where the claim has
  start plus duration; the owner's claim at the very time of the sale is refused as expired.
\<close>

theorem activation_expiration_wraps:
  "warrantyStart (productDetails lifetime 1) = 1700000100
   \<and> warrantyDuration (productDetails lifetime 1) = 18446744073709551615
   \<and> warrantyExpiration (productDetails lifetime 1) = 1700000099
   \<and> unat (warrantyExpiration (productDetails lifetime 1))
       \<noteq> unat (warrantyStart (productDetails lifetime 1))
         + unat (warrantyDuration (productDetails lifetime 1))
   \<and> submitWarrantyClaim lifetime (txn customerC 1700000100) 1 ''leaks'' = Inl WarrantyExpired"
proof -
  have p: "productDetails lifetime 1 =
      \<lparr>serialNumber = ''SN-1'', model = ''Kettle'', manufacturer = 1,
       manufactureTimestamp = 1700000000, warrantyDuration = 18446744073709551615,
       warrantyStart = 1700000100, warrantyExpiration = 1700000099,
       warrantyClaimLimit = 2, warrantyClaimCount = 0\<rparr>"
    and o: "owners lifetime 1 = 3"
    by (simp_all add: eval_defs)
  show ?thesis
    by (simp add: p o submitWarrantyClaim_def ownerOf_def ownerOf_internal_def Let_def
        txn_def customerC_def)
qed

text \<open>
  C10. On a product id without owner (one that was never registered) \<open>submitWarrantyClaim\<close>
  fails in the ownership lookup with \<open>ERC721NonexistentToken\<close>: the transaction reverts,
  nothing is stored, and the error is none of the five errors of the claim checks.
\<close>

theorem submitWarrantyClaim_unregistered:
  assumes "ownerOf_internal s tid = 0"
  shows "submitWarrantyClaim s e tid d = Inl (ERC721NonexistentToken tid)
    \<and> exec H s e (SubmitWarrantyClaim tid d) = (s, Reverted (ERC721NonexistentToken tid))
    \<and> submitWarrantyClaim s e tid d \<notin> {Inl NotOwner, Inl WarrantyNotActivated,
          Inl WarrantyExpired, Inl ClaimLimitReached, Inl IssueDescriptionEmpty}"
  using assms by (simp add: submitWarrantyClaim_def ownerOf_def commitId_def)

theorem submitWarrantyClaim_unregistered_witness:
  "ownerOf_internal (stateAfter 3) 2 = 0
   \<and> submitWarrantyClaim (stateAfter 3) (txn customerC 3000) 2 ''leaks''
       = Inl (ERC721NonexistentToken 2)"
proof -
  have o: "ownerOf_internal (stateAfter 3) 2 = 0"
    by (simp add: ownerOf_internal_def stateAfter3_facts)
  show ?thesis
    using submitWarrantyClaim_unregistered[OF o, of "txn customerC 3000" "''leaks''"] o
    by simp
qed

end
